theory Spec2Isabelle
  imports Main
begin

section \<open>Data model of \<open>mail_deduplicate/deduplicate.py\<close>\<close>

text \<open>
  Paths and mail ids are strings; a mail is identified by the pair of its source path and
  its id inside that source, which \<open>hash_all\<close> attaches to it.
\<close>

type_synonym path = string
type_synonym uid = "path \<times> string"

text \<open>
  The \<open>Mail\<close> class lives outside this module. The engine reads its \<open>size\<close>, its
  normalized \<open>body_lines\<close> (decoding the body may raise \<open>UnicodeDecodeError\<close>: \<open>None\<close>)
  and its \<open>hash_key\<close> (which may raise \<open>TooFewHeaders\<close>: \<open>None\<close>).
\<close>

record mail =
  source_path :: path
  mail_id :: string
  mail_size :: int
  body_lines :: "string list option"
  hash_key :: "string option"

definition uid_of :: "mail \<Rightarrow> uid" where
  "uid_of m = (source_path m, mail_id m)"

record conf =
  size_threshold :: int
  content_threshold :: int
  strategy :: "string option"
  dry_run :: bool
  show_diff :: bool
  input_format :: string
  force_unlock :: bool

text \<open>The keys of the statistics counter, as listed in \<open>Deduplicate.__init__\<close>.\<close>

datatype counter =
    mail_found | mail_rejected | mail_retained | mail_unique | mail_duplicates
  | mail_discarded | mail_selected | mail_copied | mail_moved | mail_deleted
  | set_total | set_ignored | set_skipped | set_rejected_encoding
  | set_rejected_size | set_rejected_content | set_deduplicated

text \<open>
  A \<open>collections.Counter\<close> reads a missing key as 0, so what the program can observe of it
  is a total function from keys to (unbounded) integers.
\<close>

type_synonym stats = "counter \<Rightarrow> int"

definition Counter :: stats where
  "Counter = (\<lambda>_. 0)"

text \<open>\<open>stats[k] += n\<close>: plain item assignment, the value may become negative.\<close>

definition incr :: "counter \<Rightarrow> int \<Rightarrow> stats \<Rightarrow> stats" where
  "incr k n st = st(k := st k + n)"

text \<open>
  \<open>stats += other\<close> is \<open>Counter.__iadd__\<close>: it adds key by key and then deletes every
  entry that is not positive, which reads as 0 from then on.
\<close>

definition counter_iadd :: "stats \<Rightarrow> stats \<Rightarrow> stats" where
  "counter_iadd a b = (\<lambda>k. let v = a k + b k in if v > 0 then v else 0)"

text \<open>The conditions \<open>check_differences\<close> raises; \<open>select_candidates\<close> catches all three.\<close>

datatype check_error = UnicodeDecodeError | SizeDiffAboveThreshold | ContentDiffAboveThreshold

text \<open>The debug and info lines that \<open>check_differences\<close> logs for the pairs it compares.\<close>

datatype check_event =
    SizeCompared mail mail int
  | ContentCompared mail mail int
  | DiffShown mail mail

section \<open>DuplicateSet\<close>

record duplicate_set =
  ds_hash_key :: string
  ds_conf :: conf
  pool :: "mail list"
  ds_stats :: stats

text \<open>
  The constructor freezes the pool: \<open>frozenset(mail_set)\<close> drops repeated elements. The
  iteration order of a set is arbitrary; the list order stands for it.
\<close>

definition DuplicateSet :: "string \<Rightarrow> mail list \<Rightarrow> conf \<Rightarrow> duplicate_set" where
  "DuplicateSet h mail_set c =
     \<lparr>ds_hash_key = h, ds_conf = c, pool = remdups mail_set, ds_stats = Counter\<rparr>"

definition pool_size :: "duplicate_set \<Rightarrow> int" where
  "pool_size ds = int (length (pool ds))"

definition bump :: "counter \<Rightarrow> int \<Rightarrow> duplicate_set \<Rightarrow> duplicate_set" where
  "bump k n ds = ds\<lparr>ds_stats := incr k n (ds_stats ds)\<rparr>"

text \<open>\<open>itertools.combinations(xs, 2)\<close>: every pair of positions \<open>i < j\<close>, in lexicographic order.\<close>

fun combinations2 :: "'a list \<Rightarrow> ('a \<times> 'a) list" where
  "combinations2 [] = []"
| "combinations2 (x # xs) = map (Pair x) xs @ combinations2 xs"

text \<open>
  \<open>difflib.unified_diff\<close> belongs to the standard library, not to this module: it is a
  parameter \<open>ud\<close>, standing for the call with \<open>fromfile="a"\<close>, \<open>tofile="b"\<close>, empty dates,
  \<open>n=0\<close> and \<open>lineterm="\n"\<close>. \<open>diff\<close> joins the lines it yields and takes the length.
  Reading \<open>body_lines\<close> of either mail may raise.
\<close>

type_synonym udiff = "string list \<Rightarrow> string list \<Rightarrow> string list"

definition diff :: "udiff \<Rightarrow> mail \<Rightarrow> mail \<Rightarrow> check_error + int" where
  "diff ud mail_a mail_b =
     (case body_lines mail_a of
        None \<Rightarrow> Inl UnicodeDecodeError
      | Some lines_a \<Rightarrow>
          (case body_lines mail_b of
             None \<Rightarrow> Inl UnicodeDecodeError
           | Some lines_b \<Rightarrow> Inr (int (length (concat (ud lines_a lines_b))))))"

text \<open>The body of the loop of \<open>check_differences\<close> for one pair: what it logs, what it raises.\<close>

definition compare_pair :: "udiff \<Rightarrow> conf \<Rightarrow> mail \<Rightarrow> mail \<Rightarrow> check_event list \<times> check_error option" where
  "compare_pair ud c mail_a mail_b =
     (let size_difference = \<bar>mail_size mail_a - mail_size mail_b\<bar>;
          size_log = (if size_threshold c > -1
                      then [SizeCompared mail_a mail_b size_difference] else [])
      in if size_threshold c > -1 \<and> size_difference > size_threshold c
         then (size_log, Some SizeDiffAboveThreshold)
         else if content_threshold c > -1
         then (case diff ud mail_a mail_b of
                 Inl e \<Rightarrow> (size_log, Some e)
               | Inr content_difference \<Rightarrow>
                   (if content_difference > content_threshold c
                    then (size_log @ [ContentCompared mail_a mail_b content_difference]
                            @ (if show_diff c then [DiffShown mail_a mail_b] else []),
                          Some ContentDiffAboveThreshold)
                    else (size_log @ [ContentCompared mail_a mail_b content_difference], None)))
         else (size_log, None))"

fun check_pairs :: "udiff \<Rightarrow> conf \<Rightarrow> (mail \<times> mail) list \<Rightarrow> check_event list \<times> check_error option" where
  "check_pairs ud c [] = ([], None)"
| "check_pairs ud c ((mail_a, mail_b) # ps) =
     (case compare_pair ud c mail_a mail_b of
        (ev, Some e) \<Rightarrow> (ev, Some e)
      | (ev, None) \<Rightarrow> (case check_pairs ud c ps of (ev', r) \<Rightarrow> (ev @ ev', r)))"

definition check_differences :: "udiff \<Rightarrow> duplicate_set \<Rightarrow> check_event list \<times> check_error option" where
  "check_differences ud ds =
     (if size_threshold (ds_conf ds) < 0 \<and> content_threshold (ds_conf ds) < 0
      then ([], None)
      else check_pairs ud (ds_conf ds) (combinations2 (pool ds)))"

text \<open>
  \<open>apply_strategy\<close> is imported from the strategy module: a parameter, called with the
  strategy's name and the duplicate set, returning the selected \<open>(source_path, mail_id)\<close>
  pairs.
\<close>

type_synonym strategy_fn = "string \<Rightarrow> duplicate_set \<Rightarrow> uid list"

text \<open>
  \<open>select_candidates\<close> returns the candidates (\<open>None\<close> for a bare \<open>return\<close>) and the
  duplicate set with its updated local statistics.
\<close>

definition skip_set :: "duplicate_set \<Rightarrow> uid list option \<times> duplicate_set" where
  "skip_set ds = (None, bump set_skipped 1 (bump mail_discarded (pool_size ds) ds))"

definition select_candidates :: "strategy_fn \<Rightarrow> udiff \<Rightarrow> duplicate_set \<Rightarrow> uid list option \<times> duplicate_set" where
  "select_candidates apply_strategy ud ds =
     (if pool_size ds = 1
      then (None, bump set_ignored 1
                    (bump mail_discarded (pool_size ds)
                      (bump mail_unique (pool_size ds) ds)))
      else
        let ds1 = bump mail_duplicates (pool_size ds) ds in
        (case snd (check_differences ud ds1) of
           Some UnicodeDecodeError \<Rightarrow>
             (None, bump set_rejected_encoding 1 (bump mail_discarded (pool_size ds1) ds1))
         | Some SizeDiffAboveThreshold \<Rightarrow>
             (None, bump set_rejected_size 1 (bump mail_discarded (pool_size ds1) ds1))
         | Some ContentDiffAboveThreshold \<Rightarrow>
             (None, bump set_rejected_content 1 (bump mail_discarded (pool_size ds1) ds1))
         | None \<Rightarrow>
             (case strategy (ds_conf ds1) of
                None \<Rightarrow> skip_set ds1
              | Some name \<Rightarrow>
                  if name = [] then skip_set ds1
                  else
                    let selected_uids = apply_strategy name ds1;
                        candidate_count = int (length selected_uids)
                    in if candidate_count = pool_size ds1
                       then (None, bump set_skipped 1 (bump mail_discarded candidate_count ds1))
                       else (Some selected_uids,
                             bump set_deduplicated 1
                               (bump mail_discarded (pool_size ds1 - candidate_count)
                                 (bump mail_selected candidate_count ds1))))))"

section \<open>Deduplicate\<close>

text \<open>
  The mailbox backend is outside this module. A box is the sequence of \<open>(mail_id, mail)\<close>
  pairs that \<open>iteritems\<close> yields (the ids of one box are distinct) and a flag set by \<open>close\<close>.
\<close>

record box =
  items :: "(string \<times> mail) list"
  closed :: bool

text \<open>The exceptions that leave the methods of \<open>Deduplicate\<close>, by their Python class.\<close>

datatype exn =
    ValueError string
  | FileNotFoundError string
  | OpenError string
  | KeyError string
  | AssertionError

fun exn_class :: "exn \<Rightarrow> string" where
  "exn_class (ValueError _) = ''ValueError''"
| "exn_class (FileNotFoundError _) = ''FileNotFoundError''"
| "exn_class (OpenError _) = ''OpenError''"
| "exn_class (KeyError _) = ''KeyError''"
| "exn_class AssertionError = ''AssertionError''"

text \<open>
  Modelled from the spec: the backend's \<open>handle.remove(id)\<close>, which this module only
  calls. It deletes the message with that id from the store; as in Python's \<open>mailbox\<close>,
  removing an id the store does not hold raises \<open>KeyError\<close> (the store-level failure).
\<close>

definition box_remove :: "box \<Rightarrow> string \<Rightarrow> exn + box" where
  "box_remove b k =
     (if k \<in> set (map fst (items b))
      then Inr (b\<lparr>items := filter (\<lambda>(k', _). k' \<noteq> k) (items b)\<rparr>)
      else Inl (KeyError k))"

text \<open>
  The state of a \<open>Deduplicate\<close> object. The two dictionaries keep insertion order, so they
  are association lists; a bucket of \<open>mails\<close> is a Python set, a list without repetition.
\<close>

record state =
  sources :: "(path \<times> box) list"
  mails :: "(string \<times> mail list) list"
  selection :: "uid list"
  conf :: conf
  stats :: stats

definition Deduplicate :: "conf \<Rightarrow> state" where
  "Deduplicate c = \<lparr>sources = [], mails = [], selection = [], conf = c, stats = Counter\<rparr>"

text \<open>
  \<open>Path.resolve(strict=True)\<close>, \<open>open_box\<close> and the backend's \<open>len(box)\<close> are parameters:
  \<open>resolve\<close> gives the absolute, symlink-free path or raises when the path does not
  exist; \<open>open_box\<close> gives the opened box or raises; \<open>box_len\<close> counts the mails of the
  store or raises (a directory that is not a mail store opens, and fails when it is
  listed). The box is registered (line 302) before it is counted (line 305). Every method
  returns the exception it raised, if any, and the state it leaves behind.
\<close>

type_synonym resolve_fn = "path \<Rightarrow> exn + path"
type_synonym open_box_fn = "path \<Rightarrow> string \<Rightarrow> bool \<Rightarrow> exn + box"
type_synonym len_fn = "box \<Rightarrow> exn + int"

definition add_source :: "resolve_fn \<Rightarrow> open_box_fn \<Rightarrow> len_fn \<Rightarrow> path \<Rightarrow> state \<Rightarrow> exn option \<times> state" where
  "add_source resolve open_box box_len given_path s =
     (case resolve given_path of
        Inl e \<Rightarrow> (Some e, s)
      | Inr p \<Rightarrow>
          if p \<in> set (map fst (sources s))
          then (Some (ValueError (p @ '' already added.'')), s)
          else (case open_box p (input_format (conf s)) (force_unlock (conf s)) of
                  Inl e \<Rightarrow> (Some e, s)
                | Inr b \<Rightarrow>
                    (let s1 = s\<lparr>sources := sources s @ [(p, b)]\<rparr> in
                     case box_len b of
                       Inl e \<Rightarrow> (Some e, s1)
                     | Inr n \<Rightarrow> (None, s1\<lparr>stats := incr mail_found n (stats s1)\<rparr>))))"

text \<open>\<open>mails.setdefault(mail_hash, set()).add(mail)\<close>\<close>

definition set_add :: "'a \<Rightarrow> 'a list \<Rightarrow> 'a list" where
  "set_add x xs = (if x \<in> set xs then xs else xs @ [x])"

fun setdefault_add :: "string \<Rightarrow> mail \<Rightarrow> (string \<times> mail list) list \<Rightarrow> (string \<times> mail list) list" where
  "setdefault_add h m [] = [(h, [m])]"
| "setdefault_add h m ((k, ms) # rest) =
     (if k = h then (k, set_add m ms) # rest else (k, ms) # setdefault_add h m rest)"

text \<open>The body of the inner loop of \<open>hash_all\<close>, for one mail of one source.\<close>

definition hash_mail :: "path \<Rightarrow> string \<times> mail \<Rightarrow> state \<Rightarrow> state" where
  "hash_mail sp km s =
     (let m = (snd km)\<lparr>source_path := sp, mail_id := fst km\<rparr> in
      case hash_key m of
        None \<Rightarrow> s\<lparr>stats := incr mail_rejected 1 (stats s)\<rparr>
      | Some mail_hash \<Rightarrow>
          s\<lparr>mails := setdefault_add mail_hash m (mails s),
            stats := incr mail_retained 1 (stats s)\<rparr>)"

definition hash_all :: "state \<Rightarrow> state" where
  "hash_all s = fold (\<lambda>(sp, b). fold (hash_mail sp) (items b)) (sources s) s"

text \<open>The body of the loop of \<open>select_all\<close>, for one hash bucket.\<close>

definition select_step :: "strategy_fn \<Rightarrow> udiff \<Rightarrow> string \<times> mail list \<Rightarrow> state \<Rightarrow> state" where
  "select_step apply_strategy ud bucket s =
     (let duplicates = DuplicateSet (fst bucket) (snd bucket) (conf s);
          r = select_candidates apply_strategy ud duplicates;
          s1 = (case fst r of
                  None \<Rightarrow> s
                | Some candidates \<Rightarrow>
                    if candidates = [] then s
                    else s\<lparr>selection := selection s @ candidates\<rparr>)
      in s1\<lparr>stats := counter_iadd (stats s1) (ds_stats (snd r))\<rparr>)"

definition close_all :: "(path \<times> box) list \<Rightarrow> (path \<times> box) list" where
  "close_all srcs = map (\<lambda>(p, b). (p, b\<lparr>closed := True\<rparr>)) srcs"

definition select_all :: "strategy_fn \<Rightarrow> udiff \<Rightarrow> state \<Rightarrow> state" where
  "select_all apply_strategy ud s =
     (let s0 = s\<lparr>stats := (stats s)(set_total := int (length (mails s)))\<rparr>;
          s1 = fold (select_step apply_strategy ud) (mails s0) s0
      in s1\<lparr>sources := close_all (sources s1)\<rparr>)"

text \<open>\<open>boltons.iterutils.unique\<close>: the values in order of first appearance.\<close>

fun unique_iter :: "'a list \<Rightarrow> 'a list \<Rightarrow> 'a list" where
  "unique_iter [] seen = []"
| "unique_iter (x # xs) seen =
     (if x \<in> set seen then unique_iter xs seen else x # unique_iter xs (x # seen))"

definition unique :: "'a list \<Rightarrow> 'a list" where
  "unique xs = unique_iter xs []"

text \<open>What \<open>remove_selection\<close> logs for each selected pair.\<close>

datatype remove_event = Deleting uid | DryRunSkip uid | Deleted uid

fun is_Deleted :: "remove_event \<Rightarrow> bool" where
  "is_Deleted (Deleted _) = True"
| "is_Deleted _ = False"

definition set_source :: "path \<Rightarrow> box \<Rightarrow> (path \<times> box) list \<Rightarrow> (path \<times> box) list" where
  "set_source p b srcs = map (\<lambda>(p', b'). if p' = p then (p', b) else (p', b')) srcs"

text \<open>
  The loop of \<open>remove_selection\<close>: the log, the exception that stopped it (if any) and the
  state at that point. \<open>self.sources[box_path]\<close> raises \<open>KeyError\<close> for an unknown path.
\<close>

fun remove_loop :: "uid list \<Rightarrow> state \<Rightarrow> remove_event list \<times> exn option \<times> state" where
  "remove_loop [] s = ([], None, s)"
| "remove_loop ((box_path, mid) # rest) s =
     (let s1 = s\<lparr>stats := incr mail_deleted 1 (stats s)\<rparr> in
      if dry_run (conf s1)
      then (case remove_loop rest s1 of
              (ev, r) \<Rightarrow> (Deleting (box_path, mid) # DryRunSkip (box_path, mid) # ev, r))
      else (case map_of (sources s1) box_path of
              None \<Rightarrow> ([Deleting (box_path, mid)], Some (KeyError box_path), s1)
            | Some b \<Rightarrow>
                (case box_remove b mid of
                   Inl e \<Rightarrow> ([Deleting (box_path, mid)], Some e, s1)
                 | Inr b' \<Rightarrow>
                     (case remove_loop rest (s1\<lparr>sources := set_source box_path b' (sources s1)\<rparr>) of
                        (ev, r) \<Rightarrow> (Deleting (box_path, mid) # Deleted (box_path, mid) # ev, r)))))"

definition remove_selection :: "state \<Rightarrow> remove_event list \<times> exn option \<times> state" where
  "remove_selection s =
     (if unique (selection s) \<noteq> selection s then ([], Some AssertionError, s)
      else remove_loop (selection s) s)"

text \<open>The assertions of \<open>check_stats\<close>, in order; the first that fails raises.\<close>

definition check_stats :: "state \<Rightarrow> exn option" where
  "check_stats s =
     (let st = stats s in
      if st mail_found \<ge> st mail_rejected
       \<and> st mail_found \<ge> st mail_retained
       \<and> st mail_found = st mail_rejected + st mail_retained
       \<and> st mail_retained \<ge> st mail_unique
       \<and> st mail_retained \<ge> st mail_duplicates
       \<and> st mail_retained = st mail_unique + st mail_duplicates
       \<and> st mail_retained = st mail_discarded + st mail_selected
       \<and> st mail_selected = st mail_copied + st mail_moved + st mail_deleted
       \<and> st mail_retained \<ge> st mail_deleted
       \<and> (st mail_duplicates = 0 \<or> st mail_duplicates > st mail_deleted)
       \<and> st set_ignored = st mail_unique
       \<and> st set_total = st set_ignored + st set_rejected_encoding + st set_rejected_size
            + st set_rejected_content + st set_skipped + st set_deduplicated
      then None else Some AssertionError)"

section \<open>Predicates of the statements\<close>

fun is_size_event :: "check_event \<Rightarrow> bool" where
  "is_size_event (SizeCompared _ _ _) = True"
| "is_size_event _ = False"

fun is_content_event :: "check_event \<Rightarrow> bool" where
  "is_content_event (SizeCompared _ _ _) = False"
| "is_content_event _ = True"

fun size_precedes :: "check_event option \<Rightarrow> check_event list \<Rightarrow> bool" where
  "size_precedes prev [] = True"
| "size_precedes prev (SizeCompared a b d # es) = size_precedes (Some (SizeCompared a b d)) es"
| "size_precedes prev (ContentCompared a b d # es) =
     ((case prev of Some (SizeCompared a' b' _) \<Rightarrow> a' = a \<and> b' = b | _ \<Rightarrow> False)
      \<and> size_precedes (Some (ContentCompared a b d)) es)"
| "size_precedes prev (DiffShown a b # es) = size_precedes (Some (DiffShown a b)) es"

definition size_violation :: "conf \<Rightarrow> mail \<Rightarrow> mail \<Rightarrow> bool" where
  "size_violation c a b = (0 \<le> size_threshold c \<and> \<bar>mail_size a - mail_size b\<bar> > size_threshold c)"

definition content_outcome :: "udiff \<Rightarrow> conf \<Rightarrow> mail \<Rightarrow> mail \<Rightarrow> check_error option" where
  "content_outcome ud c a b =
     (if 0 \<le> content_threshold c
      then (case diff ud a b of
              Inl e \<Rightarrow> Some e
            | Inr d \<Rightarrow> if d > content_threshold c then Some ContentDiffAboveThreshold else None)
      else None)"

definition pair_passes :: "udiff \<Rightarrow> conf \<Rightarrow> mail \<times> mail \<Rightarrow> bool" where
  "pair_passes ud c p = (\<not> size_violation c (fst p) (snd p) \<and> content_outcome ud c (fst p) (snd p) = None)"


fun is_Deleting :: "remove_event \<Rightarrow> bool" where
  "is_Deleting (Deleting _) = True"
| "is_Deleting _ = False"


definition begun :: "remove_event list \<Rightarrow> nat" where
  "begun ev = length (filter is_Deleting ev)"

fun deleted_uids :: "remove_event list \<Rightarrow> uid list" where
  "deleted_uids [] = []"
| "deleted_uids (Deleted u # ev) = u # deleted_uids ev"
| "deleted_uids (Deleting u # ev) = deleted_uids ev"
| "deleted_uids (DryRunSkip u # ev) = deleted_uids ev"

definition without :: "uid list \<Rightarrow> path \<Rightarrow> box \<Rightarrow> box" where
  "without gone p b = b\<lparr>items := filter (\<lambda>km. (p, fst km) \<notin> set gone) (items b)\<rparr>"

definition completed :: "remove_event list \<Rightarrow> nat" where
  "completed ev = length (filter is_Deleted ev)"


definition outcome_total :: "stats \<Rightarrow> int" where
  "outcome_total st = st set_ignored + st set_rejected_encoding + st set_rejected_size
     + st set_rejected_content + st set_skipped + st set_deduplicated"

definition set_counters_nonneg :: "stats \<Rightarrow> bool" where
  "set_counters_nonneg st \<longleftrightarrow>
     0 \<le> st set_total \<and> 0 \<le> st set_ignored \<and> 0 \<le> st set_rejected_encoding
     \<and> 0 \<le> st set_rejected_size \<and> 0 \<le> st set_rejected_content \<and> 0 \<le> st set_skipped
     \<and> 0 \<le> st set_deduplicated"

definition bucket_uids :: "string \<times> mail list \<Rightarrow> uid set" where
  "bucket_uids b = uid_of ` set (snd b)"

fun disjoint_buckets :: "(string \<times> mail list) list \<Rightarrow> bool" where
  "disjoint_buckets [] = True"
| "disjoint_buckets (b # bs) =
     ((\<forall>b' \<in> set bs. bucket_uids b \<inter> bucket_uids b' = {}) \<and> disjoint_buckets bs)"


definition wf_sources :: "(path \<times> box) list \<Rightarrow> bool" where
  "wf_sources srcs \<longleftrightarrow>
     distinct (map fst srcs) \<and> list_all (\<lambda>pb. distinct (map fst (items (snd pb)))) srcs"

definition stored :: "(string \<times> mail list) list \<Rightarrow> mail list" where
  "stored bs = concat (map snd bs)"

definition mail_counters_nonneg :: "stats \<Rightarrow> bool" where
  "mail_counters_nonneg st \<longleftrightarrow> 0 \<le> st mail_retained \<and> 0 \<le> st mail_discarded \<and> 0 \<le> st mail_selected"


section \<open>Concrete inputs\<close>

definition example_conf :: conf where
  "example_conf = \<lparr>size_threshold = 0, content_threshold = 0, strategy = Some ''first'',
     dry_run = False, show_diff = False, input_format = ''maildir'', force_unlock = False\<rparr>"

definition mail_one :: mail where
  "mail_one = \<lparr>source_path = ''/a'', mail_id = ''1'', mail_size = 10,
     body_lines = Some [''hello''], hash_key = Some ''h''\<rparr>"

definition mail_two :: mail where
  "mail_two = \<lparr>source_path = ''/b'', mail_id = ''1'', mail_size = 10,
     body_lines = Some [''hello''], hash_key = Some ''h''\<rparr>"

definition mail_big :: mail where
  "mail_big = \<lparr>source_path = ''/b'', mail_id = ''2'', mail_size = 12,
     body_lines = Some [''hello'', ''world''], hash_key = Some ''h''\<rparr>"

definition plain_diff :: udiff where
  "plain_diff xs ys = (if xs = ys then [] else map ((#) CHR ''-'') xs @ map ((#) CHR ''+'') ys)"

definition select_everything :: strategy_fn where
  "select_everything name ds = map uid_of (pool ds)"

definition select_but_first :: strategy_fn where
  "select_but_first name ds = map uid_of (tl (pool ds))"

definition select_nothing :: strategy_fn where
  "select_nothing name ds = []"


definition example_state :: state where
  "example_state = (Deduplicate example_conf)\<lparr>mails := [(''h'', [mail_one, mail_two])]\<rparr>"

definition example_box :: box where
  "example_box = \<lparr>items = [(''1'', mail_one)], closed = False\<rparr>"

definition example_resolve :: resolve_fn where
  "example_resolve p =
     (if p = ''/missing'' then Inl (FileNotFoundError p)
      else if p = ''/link'' then Inr ''/a'' else Inr p)"

definition plain_dir_box :: box where
  "plain_dir_box = \<lparr>items = [], closed = True\<rparr>"

definition example_open_box :: open_box_fn where
  "example_open_box p fmt unlock =
     (if p = ''/a'' then Inr example_box
      else if p = ''/plain'' then Inr plain_dir_box else Inl (OpenError p))"

definition example_len :: len_fn where
  "example_len b =
     (if closed b then Inl (FileNotFoundError ''new'') else Inr (int (length (items b))))"

definition dry_state :: state where
  "dry_state = \<lparr>sources = [(''/a'', example_box)], mails = [(''h'', [mail_one, mail_two])],
     selection = [(''/a'', ''1'')], conf = example_conf\<lparr>dry_run := True\<rparr>, stats = Counter\<rparr>"

definition stale_state :: state where
  "stale_state = \<lparr>sources = [(''/a'', example_box)], mails = [(''h'', [mail_one, mail_two])],
     selection = [(''/a'', ''9'')], conf = example_conf, stats = Counter\<rparr>"

definition partial_state :: state where
  "partial_state = \<lparr>sources = [(''/a'', example_box)], mails = [(''h'', [mail_one, mail_two])],
     selection = [(''/a'', ''1''), (''/a'', ''9'')], conf = example_conf, stats = Counter\<rparr>"

definition live_state :: state where
  "live_state = \<lparr>sources = [(''/a'', example_box)], mails = [(''h'', [mail_one, mail_two])],
     selection = [(''/a'', ''1'')], conf = example_conf, stats = Counter\<rparr>"

definition mail_lone :: mail where
  "mail_lone = \<lparr>source_path = ''/b'', mail_id = ''3'', mail_size = 7,
     body_lines = Some [], hash_key = Some ''g''\<rparr>"

definition other_box :: box where
  "other_box = \<lparr>items = [(''1'', mail_two), (''2'', mail_big), (''3'', mail_lone)], closed = False\<rparr>"

definition select_rest :: strategy_fn where
  "select_rest name ds = remdups (map uid_of (tl (pool ds)))"

definition fresh_state :: state where
  "fresh_state = (Deduplicate example_conf)\<lparr>sources := [(''/a'', example_box), (''/b'', other_box)],
     stats := Counter(mail_found := 4)\<rparr>"

definition two_buckets_state :: state where
  "two_buckets_state = (Deduplicate example_conf)\<lparr>mails :=
     [(''h'', [mail_one, mail_two]), (''g'', [mail_lone])]\<rparr>"


section \<open>Properties of a duplicate set\<close>

lemmas example_defs = example_conf_def mail_one_def mail_two_def mail_big_def plain_diff_def
  select_everything_def select_but_first_def select_nothing_def



lemma check_differences_bump [simp]: "check_differences ud (bump k n ds) = check_differences ud ds"
  by (simp add: check_differences_def bump_def)

lemma pool_bump [simp]: "pool (bump k n ds) = pool ds"
  by (simp add: bump_def)

lemma pool_size_bump [simp]: "pool_size (bump k n ds) = pool_size ds"
  by (simp add: bump_def pool_size_def)

lemma ds_conf_bump [simp]: "ds_conf (bump k n ds) = ds_conf ds"
  by (simp add: bump_def)

lemma ds_stats_bump [simp]: "ds_stats (bump k n ds) = (ds_stats ds)(k := ds_stats ds k + n)"
  by (simp add: bump_def incr_def)

lemma bump_eq: "bump k n ds = ds\<lparr>ds_stats := (ds_stats ds)(k := ds_stats ds k + n)\<rparr>"
  by (simp add: bump_def incr_def)

text \<open>
  C3 (as amended). A duplicate set of size 1 is ignored: \<open>select_candidates\<close> returns no
  candidates and its statistics change by exactly \<open>mail_unique += 1\<close>,
  \<open>mail_discarded += 1\<close> and \<open>set_ignored += 1\<close>; no other counter changes, so the set is
  neither rejected, skipped nor deduplicated.
\<close>
theorem size_one_ignored:
  assumes "length (pool ds) = 1"
  shows "select_candidates apply_strategy ud ds =
           (None, ds\<lparr>ds_stats := (\<lambda>k. ds_stats ds k +
              (if k = mail_unique \<or> k = mail_discarded \<or> k = set_ignored then 1 else 0))\<rparr>)"
proof -
  have "select_candidates apply_strategy ud ds =
          (None, bump set_ignored 1 (bump mail_discarded 1 (bump mail_unique 1 ds)))"
    using assms by (simp add: select_candidates_def pool_size_def)
  also have "bump set_ignored 1 (bump mail_discarded 1 (bump mail_unique 1 ds)) =
      ds\<lparr>ds_stats := (\<lambda>k. ds_stats ds k +
              (if k = mail_unique \<or> k = mail_discarded \<or> k = set_ignored then 1 else 0))\<rparr>"
    by (auto simp add: bump_eq fun_eq_iff)
  finally show ?thesis .
qed

lemma candidates_from_strategy:
  assumes "fst (select_candidates apply_strategy ud ds) = Some cs"
  shows "\<exists>name. strategy (ds_conf ds) = Some name \<and> name \<noteq> []
           \<and> cs = apply_strategy name (bump mail_duplicates (pool_size ds) ds)
           \<and> length cs \<noteq> length (pool ds)"
  using assms
  by (auto simp add: select_candidates_def Let_def pool_size_def skip_set_def
      split: if_splits option.splits check_error.splits)

lemma compare_pair_result:
  "snd (compare_pair ud c a b) =
     (if size_violation c a b then Some SizeDiffAboveThreshold else content_outcome ud c a b)"
  by (auto simp add: compare_pair_def size_violation_def content_outcome_def Let_def split: sum.splits)

lemma compare_pair_no_size:
  "size_threshold c < 0 \<Longrightarrow> e \<in> set (fst (compare_pair ud c a b)) \<Longrightarrow> \<not> is_size_event e"
  by (auto simp add: compare_pair_def Let_def split: sum.splits if_splits)

lemma compare_pair_no_content:
  "content_threshold c < 0 \<Longrightarrow> e \<in> set (fst (compare_pair ud c a b)) \<Longrightarrow> \<not> is_content_event e"
  by (auto simp add: compare_pair_def Let_def split: sum.splits if_splits)

lemma check_pairs_events:
  "fst (check_pairs ud c ps) =
     concat (map (\<lambda>(a, b). fst (compare_pair ud c a b))
       (takeWhile (pair_passes ud c) ps @ take 1 (dropWhile (pair_passes ud c) ps)))"
proof (induction ps)
  case Nil
  show ?case by simp
next
  case (Cons p ps)
  obtain a b where p: "p = (a, b)" by (cases p)
  obtain ev r where cp: "compare_pair ud c a b = (ev, r)" by (cases "compare_pair ud c a b")
  have r: "r = None \<longleftrightarrow> pair_passes ud c (a, b)"
    using compare_pair_result [of ud c a b] cp by (auto simp add: pair_passes_def)
  show ?case
  proof (cases r)
    case None
    obtain ev' r' where rest: "check_pairs ud c ps = (ev', r')" by (cases "check_pairs ud c ps")
    with None r Cons p cp show ?thesis by simp
  next
    case (Some e)
    with r p cp show ?thesis by simp
  qed
qed

lemma check_pairs_result:
  "snd (check_pairs ud c ps) =
     (case find (\<lambda>p. \<not> pair_passes ud c p) ps of
        None \<Rightarrow> None
      | Some (a, b) \<Rightarrow>
          if size_violation c a b then Some SizeDiffAboveThreshold else content_outcome ud c a b)"
proof (induction ps)
  case Nil
  show ?case by simp
next
  case (Cons p ps)
  obtain a b where p: "p = (a, b)" by (cases p)
  obtain ev r where cp: "compare_pair ud c a b = (ev, r)" by (cases "compare_pair ud c a b")
  have r: "r = (if size_violation c a b then Some SizeDiffAboveThreshold else content_outcome ud c a b)"
    using compare_pair_result [of ud c a b] cp by simp
  show ?case
  proof (cases r)
    case None
    with r have "pair_passes ud c (a, b)" by (auto simp add: pair_passes_def split: if_splits)
    moreover obtain ev' r' where rest: "check_pairs ud c ps = (ev', r')" by (cases "check_pairs ud c ps")
    ultimately show ?thesis using None Cons p cp by simp
  next
    case (Some e)
    with r have "\<not> pair_passes ud c (a, b)"
      by (metis pair_passes_def fst_conv snd_conv option.distinct(1))
    with Some r p cp show ?thesis by simp
  qed
qed

lemma size_precedes_append:
  "size_precedes prev (xs @ ys) \<longleftrightarrow>
     size_precedes prev xs \<and> size_precedes (if xs = [] then prev else Some (last xs)) ys"
  by (induction prev xs rule: size_precedes.induct) auto

lemma compare_pair_ordered:
  "0 \<le> size_threshold c \<Longrightarrow> size_precedes prev (fst (compare_pair ud c a b))"
  by (auto simp add: compare_pair_def Let_def split: sum.splits)

lemma compare_pair_nonempty:
  "0 \<le> size_threshold c \<Longrightarrow> fst (compare_pair ud c a b) \<noteq> []"
  by (auto simp add: compare_pair_def Let_def split: sum.splits)

lemma check_pairs_ordered:
  "0 \<le> size_threshold c \<Longrightarrow> size_precedes prev (fst (check_pairs ud c ps))"
proof (induction ps arbitrary: prev)
  case Nil
  show ?case by simp
next
  case (Cons p ps)
  obtain a b where p: "p = (a, b)" by (cases p)
  obtain ev r where cp: "compare_pair ud c a b = (ev, r)" by (cases "compare_pair ud c a b")
  have ev: "size_precedes prev ev" "ev \<noteq> []"
    using compare_pair_ordered [OF Cons.prems, of prev ud a b]
      compare_pair_nonempty [OF Cons.prems, of ud a b] cp by simp_all
  show ?case
  proof (cases r)
    case None
    obtain ev' r' where rest: "check_pairs ud c ps = (ev', r')" by (cases "check_pairs ud c ps")
    have "size_precedes (Some (last ev)) ev'"
      using Cons.IH [OF Cons.prems, of "Some (last ev)"] rest by simp
    with None ev p cp rest show ?thesis by (simp add: size_precedes_append)
  next
    case (Some e)
    with ev p cp show ?thesis by simp
  qed
qed

lemma check_pairs_no_size:
  "size_threshold c < 0 \<Longrightarrow> e \<in> set (fst (check_pairs ud c ps)) \<Longrightarrow> \<not> is_size_event e"
proof (induction ps)
  case Nil
  then show ?case by simp
next
  case (Cons p ps)
  then show ?case
    using compare_pair_no_size [of c e ud "fst p" "snd p"]
    by (cases p) (auto split: prod.splits option.splits)
qed

lemma check_pairs_no_content:
  "content_threshold c < 0 \<Longrightarrow> e \<in> set (fst (check_pairs ud c ps)) \<Longrightarrow> \<not> is_content_event e"
proof (induction ps)
  case Nil
  then show ?case by simp
next
  case (Cons p ps)
  then show ?case
    using compare_pair_no_content [of c e ud "fst p" "snd p"]
    by (cases p) (auto split: prod.splits option.splits)
qed

lemma uid_image_card:
  assumes "distinct (map uid_of ms)" "distinct cs" "set cs \<subseteq> uid_of ` set ms" "uid_of ` set ms \<subseteq> set cs"
  shows "length cs = length ms"
proof -
  have "set cs = set (map uid_of ms)" using assms(3,4) by auto
  then have "card (set cs) = card (set (map uid_of ms))" by simp
  then show ?thesis using assms(1,2) by (simp add: distinct_card del: set_map)
qed

text \<open>
  C2. For a duplicate set that reaches and passes the difference checks, with a strategy
  configured: if the strategy returns as many candidates as the set has mails, then
  \<open>select_candidates\<close> returns no candidates and counts the set as skipped
  (\<open>mail_duplicates\<close> and \<open>mail_discarded\<close> grow by the size, \<open>set_skipped\<close> by one,
  \<open>mail_selected\<close> and \<open>set_deduplicated\<close> stay). Hence, when the strategy returns a
  duplicate-free sub-collection of the identifiers of the set's mails, the candidates that
  \<open>select_candidates\<close> returns never cover every mail of the set.
\<close>
theorem whole_set_never_selected:
  assumes "pool_size ds \<noteq> 1"
    and "snd (check_differences ud ds) = None"
    and "strategy (ds_conf ds) = Some name" and "name \<noteq> []"
  shows "(length (apply_strategy name (bump mail_duplicates (pool_size ds) ds)) = length (pool ds)
            \<longrightarrow> select_candidates apply_strategy ud ds =
                 (None, ds\<lparr>ds_stats := (\<lambda>k. ds_stats ds k +
                    (if k = mail_duplicates \<or> k = mail_discarded then pool_size ds
                     else if k = set_skipped then 1 else 0))\<rparr>))
       \<and> (distinct (map uid_of (pool ds))
            \<and> distinct (apply_strategy name (bump mail_duplicates (pool_size ds) ds))
            \<and> set (apply_strategy name (bump mail_duplicates (pool_size ds) ds)) \<subseteq> uid_of ` set (pool ds)
            \<longrightarrow> (\<forall>cs. fst (select_candidates apply_strategy ud ds) = Some cs
                   \<longrightarrow> \<not> uid_of ` set (pool ds) \<subseteq> set cs))"
proof (intro conjI impI allI)
  let ?n = "pool_size ds"
  assume len: "length (apply_strategy name (bump mail_duplicates ?n ds)) = length (pool ds)"
  have "select_candidates apply_strategy ud ds =
          (None, bump set_skipped 1 (bump mail_discarded ?n (bump mail_duplicates ?n ds)))"
    using assms len by (simp add: select_candidates_def Let_def pool_size_def)
  also have "bump set_skipped 1 (bump mail_discarded ?n (bump mail_duplicates ?n ds)) =
      ds\<lparr>ds_stats := (\<lambda>k. ds_stats ds k +
              (if k = mail_duplicates \<or> k = mail_discarded then pool_size ds
               else if k = set_skipped then 1 else 0))\<rparr>"
    by (auto simp add: bump_eq fun_eq_iff)
  finally show "select_candidates apply_strategy ud ds =
      (None, ds\<lparr>ds_stats := (\<lambda>k. ds_stats ds k +
              (if k = mail_duplicates \<or> k = mail_discarded then pool_size ds
               else if k = set_skipped then 1 else 0))\<rparr>)" .
next
  fix cs
  let ?sel = "apply_strategy name (bump mail_duplicates (pool_size ds) ds)"
  assume contract: "distinct (map uid_of (pool ds)) \<and> distinct ?sel \<and> set ?sel \<subseteq> uid_of ` set (pool ds)"
    and some: "fst (select_candidates apply_strategy ud ds) = Some cs"
  from candidates_from_strategy [OF some] assms(3)
  have cs: "cs = ?sel" and len: "length cs \<noteq> length (pool ds)" by auto
  show "\<not> uid_of ` set (pool ds) \<subseteq> set cs"
  proof
    assume "uid_of ` set (pool ds) \<subseteq> set cs"
    with contract cs have "length cs = length (pool ds)"
      using uid_image_card [of "pool ds" cs] by simp
    with len show False by simp
  qed
qed

text \<open>The statement of C2 at a set of two mails, for a strategy that selects both and one that selects the second.\<close>
theorem whole_set_never_selected_witness:
  "select_candidates select_everything plain_diff (DuplicateSet ''h'' [mail_one, mail_two] example_conf) =
     (None, (DuplicateSet ''h'' [mail_one, mail_two] example_conf)\<lparr>ds_stats :=
        (\<lambda>k. if k = mail_duplicates \<or> k = mail_discarded then 2 else if k = set_skipped then 1 else 0)\<rparr>)
   \<and> fst (select_candidates select_but_first plain_diff (DuplicateSet ''h'' [mail_one, mail_two] example_conf))
       = Some [(''/b'', ''1'')]
   \<and> \<not> uid_of ` {mail_one, mail_two} \<subseteq> {(''/b'', ''1'')}"
proof -
  let ?ds = "DuplicateSet ''h'' [mail_one, mail_two] example_conf"
  have pool: "pool ?ds = [mail_one, mail_two]" "pool_size ?ds = 2"
    by (simp_all add: example_defs DuplicateSet_def pool_size_def)
  have reach: "pool_size ?ds \<noteq> 1" using pool by simp
  have pass: "snd (check_differences plain_diff ?ds) = None"
    by (simp add: example_defs DuplicateSet_def check_differences_def compare_pair_def diff_def)
  have strat: "strategy (ds_conf ?ds) = Some ''first''" "''first'' \<noteq> []"
    by (simp_all add: example_defs DuplicateSet_def)
  have stats0: "ds_stats ?ds = (\<lambda>_. 0)" by (simp add: DuplicateSet_def Counter_def)
  have all: "length (select_everything ''first'' (bump mail_duplicates (pool_size ?ds) ?ds)) = length (pool ?ds)"
    by (simp add: select_everything_def)
  have sel: "select_but_first ''first'' (bump mail_duplicates (pool_size ?ds) ?ds) = [(''/b'', ''1'')]"
    using pool by (simp add: select_but_first_def uid_of_def mail_two_def)
  have some: "fst (select_candidates select_but_first plain_diff ?ds) = Some [(''/b'', ''1'')]"
    using reach pass strat sel pool by (simp add: select_candidates_def Let_def)
  have uids: "uid_of ` set (pool ?ds) = {(''/a'', ''1''), (''/b'', ''1'')}"
    using pool by (simp add: uid_of_def mail_one_def mail_two_def)
  have contract: "distinct (map uid_of (pool ?ds))
      \<and> distinct (select_but_first ''first'' (bump mail_duplicates (pool_size ?ds) ?ds))
      \<and> set (select_but_first ''first'' (bump mail_duplicates (pool_size ?ds) ?ds)) \<subseteq> uid_of ` set (pool ?ds)"
    using sel uids pool by (simp add: uid_of_def mail_one_def mail_two_def)
  have first: "select_candidates select_everything plain_diff ?ds =
     (None, ?ds\<lparr>ds_stats := (\<lambda>k. ds_stats ?ds k +
                    (if k = mail_duplicates \<or> k = mail_discarded then pool_size ?ds
                     else if k = set_skipped then 1 else 0))\<rparr>)"
    using whole_set_never_selected [OF reach pass strat, of select_everything] all by blast
  have second: "\<not> uid_of ` set (pool ?ds) \<subseteq> set [(''/b'', ''1'')]"
    using whole_set_never_selected [OF reach pass strat, of select_but_first] contract some by blast
  have "(\<lambda>k. ds_stats ?ds k + (if k = mail_duplicates \<or> k = mail_discarded then pool_size ?ds
                     else if k = set_skipped then 1 else 0))
      = (\<lambda>k. if k = mail_duplicates \<or> k = mail_discarded then 2 else if k = set_skipped then 1 else 0)"
    using pool stats0 by (simp add: fun_eq_iff)
  with first second some pool show ?thesis by simp
qed

text \<open>The statement of C3 at a set holding one mail.\<close>
theorem size_one_ignored_witness:
  "select_candidates select_everything plain_diff (DuplicateSet ''h'' [mail_one] example_conf) =
     (None, (DuplicateSet ''h'' [mail_one] example_conf)\<lparr>ds_stats :=
        (\<lambda>k. if k = mail_unique \<or> k = mail_discarded \<or> k = set_ignored then 1 else 0)\<rparr>)"
proof -
  let ?ds = "DuplicateSet ''h'' [mail_one] example_conf"
  have one: "length (pool ?ds) = 1" by (simp add: DuplicateSet_def)
  have "(\<lambda>k. ds_stats ?ds k + (if k = mail_unique \<or> k = mail_discarded \<or> k = set_ignored then 1 else 0))
      = (\<lambda>k. if k = mail_unique \<or> k = mail_discarded \<or> k = set_ignored then 1 else 0)"
    by (simp add: fun_eq_iff DuplicateSet_def Counter_def)
  with size_one_ignored [OF one, of select_everything plain_diff] show ?thesis by simp
qed

text \<open>
  C3 as first stated says that \<open>mail_discarded\<close> is not changed. For a set of one mail the
  counter goes from 0 to 1 (line 174 of the source).
\<close>
theorem size_one_discarded_counterexample:
  "ds_stats (DuplicateSet ''h'' [mail_one] example_conf) mail_discarded = 0
   \<and> ds_stats (snd (select_candidates select_everything plain_diff
         (DuplicateSet ''h'' [mail_one] example_conf))) mail_discarded = 1"
  by (simp add: select_candidates_def DuplicateSet_def Counter_def pool_size_def)

text \<open>
  C10. For a duplicate set of at least two mails that passes the difference checks with a
  strategy configured: if the strategy returns no candidate, \<open>select_candidates\<close> counts
  the set as deduplicated (\<open>set_deduplicated += 1\<close>, \<open>mail_discarded += size\<close>,
  \<open>mail_selected\<close> unchanged, next to \<open>mail_duplicates += size\<close>) and returns the empty
  list, which \<open>select_all\<close> does not append: the global selection is unchanged.
\<close>
theorem empty_choice_deduplicated:
  assumes "2 \<le> length (pool ds)"
    and "snd (check_differences ud ds) = None"
    and "strategy (ds_conf ds) = Some name" and "name \<noteq> []"
    and "apply_strategy name (bump mail_duplicates (pool_size ds) ds) = []"
  shows "select_candidates apply_strategy ud ds =
           (Some [], ds\<lparr>ds_stats := (\<lambda>k. ds_stats ds k +
              (if k = mail_duplicates \<or> k = mail_discarded then pool_size ds
               else if k = set_deduplicated then 1 else 0))\<rparr>)
       \<and> (ds = DuplicateSet (fst bucket) (snd bucket) (conf s)
            \<longrightarrow> selection (select_step apply_strategy ud bucket s) = selection s)"
proof -
  let ?n = "pool_size ds"
  have nonempty: "pool ds \<noteq> []" and several: "pool_size ds \<noteq> 1"
    using assms(1) by (auto simp add: pool_size_def)
  have "select_candidates apply_strategy ud ds =
          (Some [], bump set_deduplicated 1 (bump mail_discarded (?n - 0) (bump mail_selected 0
             (bump mail_duplicates ?n ds))))"
    using assms(2-) nonempty several by (simp add: select_candidates_def Let_def pool_size_def)
  also have "bump set_deduplicated 1 (bump mail_discarded (?n - 0) (bump mail_selected 0
             (bump mail_duplicates ?n ds))) =
      ds\<lparr>ds_stats := (\<lambda>k. ds_stats ds k +
              (if k = mail_duplicates \<or> k = mail_discarded then pool_size ds
               else if k = set_deduplicated then 1 else 0))\<rparr>"
    by (auto simp add: bump_eq fun_eq_iff)
  finally have first: "select_candidates apply_strategy ud ds =
           (Some [], ds\<lparr>ds_stats := (\<lambda>k. ds_stats ds k +
              (if k = mail_duplicates \<or> k = mail_discarded then pool_size ds
               else if k = set_deduplicated then 1 else 0))\<rparr>)" .
  then have "fst (select_candidates apply_strategy ud ds) = Some []" by simp
  then have "ds = DuplicateSet (fst bucket) (snd bucket) (conf s)
      \<Longrightarrow> selection (select_step apply_strategy ud bucket s) = selection s"
    by (simp add: select_step_def Let_def)
  with first show ?thesis by blast
qed

text \<open>The statement of C10 at a set of two mails and a strategy that selects nothing.\<close>
theorem empty_choice_deduplicated_witness:
  "select_candidates select_nothing plain_diff (DuplicateSet ''h'' [mail_one, mail_two] example_conf) =
     (Some [], (DuplicateSet ''h'' [mail_one, mail_two] example_conf)\<lparr>ds_stats :=
        (\<lambda>k. if k = mail_duplicates \<or> k = mail_discarded then 2
             else if k = set_deduplicated then 1 else 0)\<rparr>)
   \<and> selection (select_step select_nothing plain_diff (''h'', [mail_one, mail_two]) example_state) = []"
proof -
  let ?ds = "DuplicateSet ''h'' [mail_one, mail_two] example_conf"
  have pool: "pool ?ds = [mail_one, mail_two]" "pool_size ?ds = 2"
    by (simp_all add: example_defs DuplicateSet_def pool_size_def)
  have two: "2 \<le> length (pool ?ds)" using pool by simp
  have pass: "snd (check_differences plain_diff ?ds) = None"
    by (simp add: example_defs DuplicateSet_def check_differences_def compare_pair_def diff_def)
  have strat: "strategy (ds_conf ?ds) = Some ''first''" "''first'' \<noteq> []"
    by (simp_all add: example_defs DuplicateSet_def)
  have none: "select_nothing ''first'' (bump mail_duplicates (pool_size ?ds) ?ds) = []"
    by (simp add: select_nothing_def)
  have ds: "?ds = DuplicateSet (fst (''h'', [mail_one, mail_two])) (snd (''h'', [mail_one, mail_two]))
      (conf example_state)"
    by (simp add: example_state_def Deduplicate_def)
  have sel: "selection example_state = []" by (simp add: example_state_def Deduplicate_def)
  have "(\<lambda>k. ds_stats ?ds k + (if k = mail_duplicates \<or> k = mail_discarded then pool_size ?ds
                     else if k = set_deduplicated then 1 else 0))
      = (\<lambda>k. if k = mail_duplicates \<or> k = mail_discarded then 2 else if k = set_deduplicated then 1 else 0)"
    using pool by (simp add: fun_eq_iff DuplicateSet_def Counter_def)
  with empty_choice_deduplicated [of ?ds plain_diff "''first''" select_nothing
      "(''h'', [mail_one, mail_two])" example_state] two pass strat none ds sel
  show ?thesis by simp
qed

text \<open>
  C8. In \<open>check_differences\<close>: no size comparison is logged when the size threshold is
  negative, no content comparison when the content threshold is negative, and with both
  negative nothing is examined and the check passes. When the size check is enabled every
  content comparison in the log comes right after the size comparison of the same pair. The
  pairs examined are those up to and including the first pair that violates a threshold,
  and that pair decides the outcome: a size rejection when its size gap is too large,
  otherwise what its content comparison gives.
\<close>
theorem check_differences_thresholds:
  "(size_threshold (ds_conf ds) < 0
      \<longrightarrow> (\<forall>e \<in> set (fst (check_differences ud ds)). \<not> is_size_event e))
   \<and> (content_threshold (ds_conf ds) < 0
      \<longrightarrow> (\<forall>e \<in> set (fst (check_differences ud ds)). \<not> is_content_event e))
   \<and> (size_threshold (ds_conf ds) < 0 \<and> content_threshold (ds_conf ds) < 0
      \<longrightarrow> check_differences ud ds = ([], None))
   \<and> (0 \<le> size_threshold (ds_conf ds)
      \<longrightarrow> size_precedes None (fst (check_differences ud ds)))
   \<and> fst (check_differences ud ds) =
       concat (map (\<lambda>(a, b). fst (compare_pair ud (ds_conf ds) a b))
         (takeWhile (pair_passes ud (ds_conf ds)) (combinations2 (pool ds))
          @ take 1 (dropWhile (pair_passes ud (ds_conf ds)) (combinations2 (pool ds)))))
   \<and> snd (check_differences ud ds) =
       (case find (\<lambda>p. \<not> pair_passes ud (ds_conf ds) p) (combinations2 (pool ds)) of
          None \<Rightarrow> None
        | Some (a, b) \<Rightarrow>
            if size_violation (ds_conf ds) a b then Some SizeDiffAboveThreshold
            else content_outcome ud (ds_conf ds) a b)"
proof (cases "size_threshold (ds_conf ds) < 0 \<and> content_threshold (ds_conf ds) < 0")
  case True
  let ?c = "ds_conf ds"
  have off: "check_differences ud ds = ([], None)" using True by (simp add: check_differences_def)
  have pass: "pair_passes ud ?c p" for p
    using True by (simp add: pair_passes_def size_violation_def content_outcome_def)
  have quiet: "fst (compare_pair ud ?c a b) = []" for a b
    using True by (simp add: compare_pair_def)
  have "concat (map (\<lambda>(a, b). fst (compare_pair ud ?c a b)) ps) = []" for ps
    by (induction ps) (auto simp add: quiet)
  moreover have "find (\<lambda>p. \<not> pair_passes ud ?c p) ps = None" for ps
    by (induction ps) (auto simp add: pass)
  ultimately show ?thesis using True off by simp
next
  case False
  let ?c = "ds_conf ds"
  have on: "check_differences ud ds = check_pairs ud ?c (combinations2 (pool ds))"
    using False by (auto simp add: check_differences_def)
  have "\<forall>e \<in> set (fst (check_differences ud ds)). \<not> is_size_event e"
    if "size_threshold ?c < 0"
    using that check_pairs_no_size [of ?c _ ud "combinations2 (pool ds)"] on by auto
  moreover have "\<forall>e \<in> set (fst (check_differences ud ds)). \<not> is_content_event e"
    if "content_threshold ?c < 0"
    using that check_pairs_no_content [of ?c _ ud "combinations2 (pool ds)"] on by auto
  moreover have "size_precedes None (fst (check_differences ud ds))" if "0 \<le> size_threshold ?c"
    using that check_pairs_ordered [of ?c None ud "combinations2 (pool ds)"] on by simp
  moreover note check_pairs_events [of ud ?c "combinations2 (pool ds)", folded on]
    check_pairs_result [of ud ?c "combinations2 (pool ds)", folded on]
  ultimately show ?thesis using False by blast
qed

text \<open>The statement of C8 at sets of two mails under five configurations of the thresholds.\<close>
theorem check_differences_thresholds_witness:
  "list_all (\<lambda>e. \<not> is_size_event e)
     (fst (check_differences plain_diff
        (DuplicateSet ''h'' [mail_one, mail_big] (example_conf\<lparr>size_threshold := -1\<rparr>))))
   \<and> list_all (\<lambda>e. \<not> is_content_event e)
     (fst (check_differences plain_diff
        (DuplicateSet ''h'' [mail_one, mail_big] (example_conf\<lparr>content_threshold := -1\<rparr>))))
   \<and> check_differences plain_diff
        (DuplicateSet ''h'' [mail_one, mail_big]
           (example_conf\<lparr>size_threshold := -1, content_threshold := -1\<rparr>)) = ([], None)
   \<and> size_precedes None (fst (check_differences plain_diff
        (DuplicateSet ''h'' [mail_one, mail_two] example_conf)))
   \<and> snd (check_differences plain_diff (DuplicateSet ''h'' [mail_one, mail_big] example_conf))
       = Some SizeDiffAboveThreshold"
proof -
  let ?a = "DuplicateSet ''h'' [mail_one, mail_big] (example_conf\<lparr>size_threshold := -1\<rparr>)"
  let ?b = "DuplicateSet ''h'' [mail_one, mail_big] (example_conf\<lparr>content_threshold := -1\<rparr>)"
  let ?c = "DuplicateSet ''h'' [mail_one, mail_big]
           (example_conf\<lparr>size_threshold := -1, content_threshold := -1\<rparr>)"
  let ?d = "DuplicateSet ''h'' [mail_one, mail_two] example_conf"
  let ?e = "DuplicateSet ''h'' [mail_one, mail_big] example_conf"
  have a: "size_threshold (ds_conf ?a) < 0" by (simp add: DuplicateSet_def example_conf_def)
  have b: "content_threshold (ds_conf ?b) < 0" by (simp add: DuplicateSet_def example_conf_def)
  have c: "size_threshold (ds_conf ?c) < 0 \<and> content_threshold (ds_conf ?c) < 0"
    by (simp add: DuplicateSet_def example_conf_def)
  have d: "0 \<le> size_threshold (ds_conf ?d)" by (simp add: DuplicateSet_def example_conf_def)
  have e: "(case find (\<lambda>p. \<not> pair_passes plain_diff (ds_conf ?e) p) (combinations2 (pool ?e)) of
          None \<Rightarrow> None
        | Some (a, b) \<Rightarrow>
            if size_violation (ds_conf ?e) a b then Some SizeDiffAboveThreshold
            else content_outcome plain_diff (ds_conf ?e) a b) = Some SizeDiffAboveThreshold"
    by (simp add: DuplicateSet_def example_defs pair_passes_def size_violation_def)
  have A: "list_all (\<lambda>e. \<not> is_size_event e) (fst (check_differences plain_diff ?a))"
    using check_differences_thresholds [of ?a plain_diff, THEN conjunct1, THEN mp, OF a]
    by (simp only: list_all_iff)
  have B: "list_all (\<lambda>e. \<not> is_content_event e) (fst (check_differences plain_diff ?b))"
    using check_differences_thresholds [of ?b plain_diff, THEN conjunct2, THEN conjunct1, THEN mp, OF b]
    by (simp only: list_all_iff)
  have C: "check_differences plain_diff ?c = ([], None)"
    by (rule check_differences_thresholds [of ?c plain_diff, THEN conjunct2, THEN conjunct2,
          THEN conjunct1, THEN mp, OF c])
  have D: "size_precedes None (fst (check_differences plain_diff ?d))"
    by (rule check_differences_thresholds [of ?d plain_diff, THEN conjunct2, THEN conjunct2,
          THEN conjunct2, THEN conjunct1, THEN mp, OF d])
  have E: "snd (check_differences plain_diff ?e) = Some SizeDiffAboveThreshold"
    using check_differences_thresholds [of ?e plain_diff, THEN conjunct2, THEN conjunct2,
          THEN conjunct2, THEN conjunct2, THEN conjunct2] e
    by (rule trans)
  from A B C D E show ?thesis by (intro conjI)
qed

section \<open>Registering sources and removing the selection\<close>

lemmas example_defs2 = example_box_def example_resolve_def example_open_box_def dry_state_def
  stale_state_def live_state_def


text \<open>
  C7 (as amended). \<open>add_source\<close> resolves the path first. When the resolved path is
  already registered it fails with a \<open>ValueError\<close> and leaves the state, and so the
  registry, unchanged. It also fails when the path does not resolve, when \<open>open_box\<close>
  raises (both before anything is registered) and when counting the mails of the opened
  box raises (after the box was registered). On success the opened box is registered under
  the resolved path and \<open>mail_found\<close> grows by the count of the store. A registry in
  which no path appears twice stays so.
\<close>
theorem add_source_outcomes:
  "(\<forall>e. resolve p = Inl e \<longrightarrow> add_source resolve open_box box_len p s = (Some e, s))
   \<and> (\<forall>q. resolve p = Inr q \<and> q \<in> set (map fst (sources s)) \<longrightarrow>
         (\<exists>e. add_source resolve open_box box_len p s = (Some e, s)
              \<and> exn_class e = ''ValueError''))
   \<and> (\<forall>q e. resolve p = Inr q \<and> q \<notin> set (map fst (sources s))
         \<and> open_box q (input_format (conf s)) (force_unlock (conf s)) = Inl e \<longrightarrow>
         add_source resolve open_box box_len p s = (Some e, s))
   \<and> (\<forall>q b e. resolve p = Inr q \<and> q \<notin> set (map fst (sources s))
         \<and> open_box q (input_format (conf s)) (force_unlock (conf s)) = Inr b
         \<and> box_len b = Inl e \<longrightarrow>
         add_source resolve open_box box_len p s =
           (Some e, s\<lparr>sources := sources s @ [(q, b)]\<rparr>))
   \<and> (\<forall>q b n. resolve p = Inr q \<and> q \<notin> set (map fst (sources s))
         \<and> open_box q (input_format (conf s)) (force_unlock (conf s)) = Inr b
         \<and> box_len b = Inr n \<longrightarrow>
         add_source resolve open_box box_len p s =
           (None, s\<lparr>sources := sources s @ [(q, b)],
                    stats := (stats s)(mail_found := stats s mail_found + n)\<rparr>))
   \<and> (distinct (map fst (sources s)) \<longrightarrow>
         distinct (map fst (sources (snd (add_source resolve open_box box_len p s)))))"
proof -
  have "distinct (map fst (sources (snd (add_source resolve open_box box_len p s))))"
    if "distinct (map fst (sources s))"
  proof (cases "resolve p")
    case (Inl e)
    with that show ?thesis by (simp add: add_source_def)
  next
    case (Inr q)
    show ?thesis
    proof (cases "q \<in> set (map fst (sources s))")
      case True
      with Inr that show ?thesis by (simp add: add_source_def)
    next
      case False
      show ?thesis
      proof (cases "open_box q (input_format (conf s)) (force_unlock (conf s))")
        case (Inl e)
        with Inr False that show ?thesis by (simp add: add_source_def)
      next
        case b: (Inr b)
        with Inr False that show ?thesis
          by (cases "box_len b") (simp_all add: add_source_def Let_def)
      qed
    qed
  qed
  then show ?thesis by (simp add: add_source_def incr_def Let_def)
qed

text \<open>
  The statement of C7 at a missing path, an unopenable path, a directory that opens but
  cannot be counted, a symlink to a store and a registered path.
\<close>
theorem add_source_outcomes_witness:
  "add_source example_resolve example_open_box example_len ''/missing'' (Deduplicate example_conf)
     = (Some (FileNotFoundError ''/missing''), Deduplicate example_conf)
   \<and> add_source example_resolve example_open_box example_len ''/b'' (Deduplicate example_conf)
     = (Some (OpenError ''/b''), Deduplicate example_conf)
   \<and> add_source example_resolve example_open_box example_len ''/plain'' (Deduplicate example_conf)
     = (Some (FileNotFoundError ''new''),
        (Deduplicate example_conf)\<lparr>sources := [(''/plain'', plain_dir_box)]\<rparr>)
   \<and> add_source example_resolve example_open_box example_len ''/link'' (Deduplicate example_conf)
     = (None, (Deduplicate example_conf)\<lparr>sources := [(''/a'', example_box)],
          stats := Counter(mail_found := 1)\<rparr>)
   \<and> fst (add_source example_resolve example_open_box example_len ''/a''
        ((Deduplicate example_conf)\<lparr>sources := [(''/a'', example_box)]\<rparr>))
     = Some (ValueError ''/a already added.'')"
proof -
  let ?s = "Deduplicate example_conf"
  let ?t = "?s\<lparr>sources := [(''/a'', example_box)]\<rparr>"
  note T = add_source_outcomes [where resolve = example_resolve and open_box = example_open_box
      and box_len = example_len]
  have r1: "example_resolve ''/missing'' = Inl (FileNotFoundError ''/missing'')"
    by (simp add: example_resolve_def)
  have r2: "example_resolve ''/b'' = Inr ''/b'' \<and> ''/b'' \<notin> set (map fst (sources ?s))
      \<and> example_open_box ''/b'' (input_format (conf ?s)) (force_unlock (conf ?s)) = Inl (OpenError ''/b'')"
    by (simp add: example_resolve_def example_open_box_def Deduplicate_def)
  have r3: "example_resolve ''/link'' = Inr ''/a'' \<and> ''/a'' \<notin> set (map fst (sources ?s))
      \<and> example_open_box ''/a'' (input_format (conf ?s)) (force_unlock (conf ?s)) = Inr example_box
      \<and> example_len example_box = Inr 1"
    by (simp add: example_resolve_def example_open_box_def example_len_def example_box_def
        Deduplicate_def)
  have r4: "example_resolve ''/a'' = Inr ''/a'' \<and> ''/a'' \<in> set (map fst (sources ?t))"
    by (simp add: example_resolve_def)
  have r5: "example_resolve ''/plain'' = Inr ''/plain'' \<and> ''/plain'' \<notin> set (map fst (sources ?s))
      \<and> example_open_box ''/plain'' (input_format (conf ?s)) (force_unlock (conf ?s)) = Inr plain_dir_box
      \<and> example_len plain_dir_box = Inl (FileNotFoundError ''new'')"
    by (simp add: example_resolve_def example_open_box_def example_len_def plain_dir_box_def
        Deduplicate_def)
  have a1: "add_source example_resolve example_open_box example_len ''/missing'' ?s
     = (Some (FileNotFoundError ''/missing''), ?s)"
    using T [where p = "''/missing''" and s = "?s"] r1 by blast
  have a2: "add_source example_resolve example_open_box example_len ''/b'' ?s
     = (Some (OpenError ''/b''), ?s)"
    using T [where p = "''/b''" and s = "?s"] r2 by blast
  have "add_source example_resolve example_open_box example_len ''/plain'' ?s
     = (Some (FileNotFoundError ''new''), ?s\<lparr>sources := sources ?s @ [(''/plain'', plain_dir_box)]\<rparr>)"
    using T [where p = "''/plain''" and s = "?s"] r5 by blast
  then have a5: "add_source example_resolve example_open_box example_len ''/plain'' ?s
     = (Some (FileNotFoundError ''new''), ?s\<lparr>sources := [(''/plain'', plain_dir_box)]\<rparr>)"
    by (simp add: Deduplicate_def)
  have "add_source example_resolve example_open_box example_len ''/link'' ?s =
     (None, ?s\<lparr>sources := sources ?s @ [(''/a'', example_box)],
          stats := (stats ?s)(mail_found := stats ?s mail_found + 1)\<rparr>)"
    using T [where p = "''/link''" and s = "?s"] r3 by blast
  then have a3: "add_source example_resolve example_open_box example_len ''/link'' ?s =
     (None, ?s\<lparr>sources := [(''/a'', example_box)], stats := Counter(mail_found := 1)\<rparr>)"
    by (simp add: Deduplicate_def Counter_def)
  obtain e where e: "add_source example_resolve example_open_box example_len ''/a'' ?t = (Some e, ?t)"
      "exn_class e = ''ValueError''"
    using T [where p = "''/a''" and s = "?t"] r4 by blast
  have "add_source example_resolve example_open_box example_len ''/a'' ?t
      = (Some (ValueError ''/a already added.''), ?t)"
    by (simp add: add_source_def example_resolve_def)
  with e have a4: "fst (add_source example_resolve example_open_box example_len ''/a'' ?t)
      = Some (ValueError ''/a already added.'')"
    by simp
  from a1 a2 a5 a3 a4 show ?thesis by (intro conjI)
qed

text \<open>
  C7 as first stated names the exception \<open>DuplicateSourceError\<close>. Registering a store through
  a symlink and then by its own path raises \<open>ValueError\<close> (line 298 of the source).
\<close>
theorem duplicate_source_counterexample:
  "fst (add_source example_resolve example_open_box example_len ''/a''
        (snd (add_source example_resolve example_open_box example_len ''/link''
           (Deduplicate example_conf))))
     = Some (ValueError ''/a already added.'')
   \<and> exn_class (ValueError ''/a already added.'') \<noteq> ''DuplicateSourceError''"
  by (simp add: add_source_def example_resolve_def example_open_box_def example_len_def
      example_box_def Deduplicate_def)

lemma unique_iter_length: "length (unique_iter xs seen) \<le> length xs"
  by (induction xs arbitrary: seen) (auto simp add: le_SucI)

lemma unique_iter_id:
  "unique_iter xs seen = xs \<longleftrightarrow> distinct xs \<and> set xs \<inter> set seen = {}"
proof (induction xs arbitrary: seen)
  case Nil
  show ?case by simp
next
  case (Cons x xs)
  show ?case
  proof (cases "x \<in> set seen")
    case True
    have "length (unique_iter xs seen) < length (x # xs)"
      using unique_iter_length [of xs seen] by simp
    then have "unique_iter xs seen \<noteq> x # xs" by auto
    with True show ?thesis by simp
  next
    case False
    with Cons [of "x # seen"] show ?thesis by auto
  qed
qed

lemma unique_id: "unique xs = xs \<longleftrightarrow> distinct xs"
  by (simp add: unique_def unique_iter_id)

lemma remove_loop_effect:
  "remove_loop sel s = (ev, r, s') \<Longrightarrow>
     stats s' = (stats s)(mail_deleted := stats s mail_deleted + int (begun ev))
     \<and> conf s' = conf s \<and> selection s' = selection s \<and> mails s' = mails s
     \<and> (if dry_run (conf s)
        then r = None \<and> sources s' = sources s \<and> completed ev = 0 \<and> begun ev = length sel
        else (case r of
                None \<Rightarrow> completed ev = length sel \<and> begun ev = length sel
              | Some e \<Rightarrow> begun ev = completed ev + 1 \<and> completed ev < length sel))"
proof (induction sel arbitrary: s ev r s')
  case Nil
  then show ?case by (auto simp add: begun_def completed_def)
next
  case (Cons u rest)
  obtain box_path mid where u: "u = (box_path, mid)" by (cases u)
  let ?s1 = "s\<lparr>stats := incr mail_deleted 1 (stats s)\<rparr>"
  show ?case
  proof (cases "dry_run (conf s)")
    case True
    obtain ev1 r1 t1 where rec: "remove_loop rest ?s1 = (ev1, r1, t1)"
      by (cases "remove_loop rest ?s1") auto
    from Cons.prems u True rec
    have res: "ev = Deleting (box_path, mid) # DryRunSkip (box_path, mid) # ev1" "r = r1" "s' = t1"
      by simp_all
    from Cons.IH [OF rec] True res show ?thesis
      by (auto simp add: begun_def completed_def incr_def fun_eq_iff)
  next
    case False
    show ?thesis
    proof (cases "map_of (sources s) box_path")
      case None
      with Cons.prems u False
      have "ev = [Deleting (box_path, mid)]" "r = Some (KeyError box_path)" "s' = ?s1"
        by simp_all
      with False show ?thesis
        by (auto simp add: begun_def completed_def incr_def fun_eq_iff)
    next
      case (Some b)
      show ?thesis
      proof (cases "box_remove b mid")
        case (Inl e)
        with Cons.prems u False Some
        have "ev = [Deleting (box_path, mid)]" "r = Some e" "s' = ?s1"
          by simp_all
        with False show ?thesis
          by (auto simp add: begun_def completed_def incr_def fun_eq_iff)
      next
        case (Inr b')
        let ?s2 = "?s1\<lparr>sources := set_source box_path b' (sources ?s1)\<rparr>"
        obtain ev1 r1 t1 where rec: "remove_loop rest ?s2 = (ev1, r1, t1)"
          by (cases "remove_loop rest ?s2") auto
        from Cons.prems u False Some Inr rec
        have res: "ev = Deleting (box_path, mid) # Deleted (box_path, mid) # ev1" "r = r1" "s' = t1"
          by simp_all
        from Cons.IH [OF rec] False res show ?thesis
          by (auto simp add: begun_def completed_def incr_def fun_eq_iff split: option.splits)
      qed
    qed
  qed
qed

lemma map_of_set_source:
  "map_of (set_source p b srcs) q =
     (if q = p then (case map_of srcs p of None \<Rightarrow> None | Some _ \<Rightarrow> Some b) else map_of srcs q)"
  by (induction srcs) (auto simp add: set_source_def)

lemma keys_set_source: "map fst (set_source p b srcs) = map fst srcs"
  by (induction srcs) (auto simp add: set_source_def)

lemma without_nothing: "without [] p b = b"
  by (simp add: without_def)

lemma without_other: "p \<noteq> q \<Longrightarrow> without ((q, k) # gone) p b = without gone p b"
  by (simp add: without_def)

lemma without_removed:
  "without gone p (b\<lparr>items := filter (\<lambda>(k', _). k' \<noteq> k) (items b)\<rparr>) = without ((p, k) # gone) p b"
proof -
  have "filter (\<lambda>km. (p, fst km) \<notin> set gone) (filter (\<lambda>(k', _). k' \<noteq> k) (items b))
      = filter (\<lambda>km. (p, fst km) \<notin> set ((p, k) # gone)) (items b)"
    by (induction "items b") (auto intro: filter_cong)
  then show ?thesis by (simp add: without_def)
qed

lemma length_deleted_uids: "length (deleted_uids ev) = completed ev"
  by (induction ev rule: deleted_uids.induct) (simp_all add: completed_def)

lemma remove_loop_store:
  "remove_loop sel s = (ev, r, s') \<Longrightarrow>
     deleted_uids ev = take (completed ev) sel
     \<and> map fst (sources s') = map fst (sources s)
     \<and> (\<forall>p b. map_of (sources s) p = Some b
           \<longrightarrow> map_of (sources s') p = Some (without (deleted_uids ev) p b))"
proof (induction sel arbitrary: s ev r s')
  case Nil
  then show ?case by (simp add: completed_def without_nothing)
next
  case (Cons u rest)
  obtain box_path mid where u: "u = (box_path, mid)" by (cases u)
  let ?s1 = "s\<lparr>stats := incr mail_deleted 1 (stats s)\<rparr>"
  show ?case
  proof (cases "dry_run (conf s)")
    case True
    obtain ev1 r1 t1 where rec: "remove_loop rest ?s1 = (ev1, r1, t1)"
      by (cases "remove_loop rest ?s1") auto
    from Cons.prems u True rec
    have res: "ev = Deleting (box_path, mid) # DryRunSkip (box_path, mid) # ev1" "s' = t1"
      by simp_all
    from remove_loop_effect [OF rec] True have none: "completed ev1 = 0" by simp
    with Cons.IH [OF rec] res show ?thesis by (simp add: completed_def)
  next
    case False
    show ?thesis
    proof (cases "map_of (sources s) box_path")
      case None
      with Cons.prems u False
      have "ev = [Deleting (box_path, mid)]" "s' = ?s1" by simp_all
      then show ?thesis by (simp add: completed_def without_nothing)
    next
      case (Some b)
      show ?thesis
      proof (cases "box_remove b mid")
        case (Inl e)
        with Cons.prems u False Some
        have "ev = [Deleting (box_path, mid)]" "s' = ?s1" by simp_all
        then show ?thesis by (simp add: completed_def without_nothing)
      next
        case (Inr b')
        let ?s2 = "?s1\<lparr>sources := set_source box_path b' (sources ?s1)\<rparr>"
        obtain ev1 r1 t1 where rec: "remove_loop rest ?s2 = (ev1, r1, t1)"
          by (cases "remove_loop rest ?s2") auto
        from Cons.prems u False Some Inr rec
        have res: "ev = Deleting (box_path, mid) # Deleted (box_path, mid) # ev1" "s' = t1"
          by simp_all
        from Inr have b': "b' = b\<lparr>items := filter (\<lambda>(k', _). k' \<noteq> mid) (items b)\<rparr>"
          by (auto simp add: box_remove_def split: if_splits)
        note ih = Cons.IH [OF rec]
        have dels: "deleted_uids ev = (box_path, mid) # deleted_uids ev1"
          and count: "completed ev = Suc (completed ev1)"
          using res by (simp_all add: completed_def)
        have prefix: "deleted_uids ev = take (completed ev) (u # rest)"
          using ih dels count u by simp
        have keys: "map fst (sources s') = map fst (sources s)"
          using ih res by (simp add: keys_set_source)
        have store: "map_of (sources s') p = Some (without (deleted_uids ev) p b0)"
          if p: "map_of (sources s) p = Some b0" for p b0
        proof (cases "p = box_path")
          case True
          with p Some have "b0 = b" by simp
          with True Some have "map_of (sources ?s2) p = Some b'"
            by (simp add: map_of_set_source)
          with ih res have "map_of (sources s') p = Some (without (deleted_uids ev1) p b')"
            by simp
          with b' True \<open>b0 = b\<close> dels show ?thesis by (simp add: without_removed)
        next
          case False
          with p have "map_of (sources ?s2) p = Some b0" by (simp add: map_of_set_source)
          with ih res have "map_of (sources s') p = Some (without (deleted_uids ev1) p b0)"
            by simp
          with False dels show ?thesis by (simp add: without_other)
        qed
        from prefix keys store show ?thesis by blast
      qed
    qed
  qed
qed

text \<open>
  C1 (as amended). In \<open>remove_selection\<close>, for a selection without repetition, no counter
  but \<open>mail_deleted\<close> changes. In dry-run mode \<open>mail_deleted\<close> is incremented for every
  selected pair although nothing raises, no removal is performed and the sources are
  unchanged. Outside dry-run mode, when no removal raises, one removal is performed for
  every selected pair and \<open>mail_deleted\<close> grows by the number of removals performed; when
  a removal raises, the rest of the batch is not processed. In every case the removals
  performed are those of a prefix of the selection, in order, and they are applied: the
  registry keeps its paths, and each box has lost exactly the mails whose removal was
  performed on its path.
\<close>
theorem remove_selection_counts:
  assumes "distinct (selection s)" and "remove_selection s = (ev, r, s')"
  shows "(\<forall>k. k \<noteq> mail_deleted \<longrightarrow> stats s' k = stats s k)
     \<and> (dry_run (conf s) \<longrightarrow>
           r = None \<and> sources s' = sources s \<and> completed ev = 0
           \<and> stats s' mail_deleted = stats s mail_deleted + int (length (selection s)))
     \<and> (\<not> dry_run (conf s) \<and> r = None \<longrightarrow>
           completed ev = length (selection s)
           \<and> stats s' mail_deleted = stats s mail_deleted + int (completed ev))
     \<and> (\<not> dry_run (conf s) \<and> r \<noteq> None \<longrightarrow> completed ev < length (selection s))
     \<and> deleted_uids ev = take (completed ev) (selection s)
     \<and> map fst (sources s') = map fst (sources s)
     \<and> (\<forall>p b. map_of (sources s) p = Some b
           \<longrightarrow> map_of (sources s') p = Some (without (deleted_uids ev) p b))"
proof -
  from assms have loop: "remove_loop (selection s) s = (ev, r, s')"
    by (simp add: remove_selection_def unique_id)
  have counts: "(\<forall>k. k \<noteq> mail_deleted \<longrightarrow> stats s' k = stats s k)
     \<and> (dry_run (conf s) \<longrightarrow>
           r = None \<and> sources s' = sources s \<and> completed ev = 0
           \<and> stats s' mail_deleted = stats s mail_deleted + int (length (selection s)))
     \<and> (\<not> dry_run (conf s) \<and> r = None \<longrightarrow>
           completed ev = length (selection s)
           \<and> stats s' mail_deleted = stats s mail_deleted + int (completed ev))
     \<and> (\<not> dry_run (conf s) \<and> r \<noteq> None \<longrightarrow> completed ev < length (selection s))"
    using remove_loop_effect [OF loop] by (cases "dry_run (conf s)"; cases r) auto
  from counts remove_loop_store [OF loop] show ?thesis by blast
qed

text \<open>
  The statement of C1 at a dry run, a real run, a run whose only removal raises and a run
  whose second removal raises after the first was performed.
\<close>
theorem remove_selection_counts_witness:
  "stats (snd (snd (remove_selection dry_state))) mail_deleted = 1
   \<and> sources (snd (snd (remove_selection dry_state))) = sources dry_state
   \<and> completed (fst (remove_selection dry_state)) = 0
   \<and> stats (snd (snd (remove_selection live_state))) mail_deleted = 1
   \<and> completed (fst (remove_selection live_state)) = 1
   \<and> map_of (sources (snd (snd (remove_selection live_state)))) ''/a''
       = Some (example_box\<lparr>items := []\<rparr>)
   \<and> completed (fst (remove_selection stale_state)) = 0
   \<and> map_of (sources (snd (snd (remove_selection stale_state)))) ''/a'' = Some example_box
   \<and> fst (snd (remove_selection partial_state)) = Some (KeyError ''9'')
   \<and> deleted_uids (fst (remove_selection partial_state)) = [(''/a'', ''1'')]
   \<and> map_of (sources (snd (snd (remove_selection partial_state)))) ''/a''
       = Some (example_box\<lparr>items := []\<rparr>)"
proof -
  have dry: "remove_selection dry_state =
      ([Deleting (''/a'', ''1''), DryRunSkip (''/a'', ''1'')], None,
       dry_state\<lparr>stats := incr mail_deleted 1 (stats dry_state)\<rparr>)"
    by (simp add: remove_selection_def unique_def dry_state_def example_conf_def)
  have live: "remove_selection live_state =
      ([Deleting (''/a'', ''1''), Deleted (''/a'', ''1'')], None,
       live_state\<lparr>stats := incr mail_deleted 1 (stats live_state),
         sources := [(''/a'', example_box\<lparr>items := []\<rparr>)]\<rparr>)"
    by (simp add: remove_selection_def unique_def live_state_def example_conf_def
        example_box_def box_remove_def set_source_def)
  have stale: "remove_selection stale_state =
      ([Deleting (''/a'', ''9'')], Some (KeyError ''9''),
       stale_state\<lparr>stats := incr mail_deleted 1 (stats stale_state)\<rparr>)"
    by (simp add: remove_selection_def unique_def stale_state_def example_conf_def
        example_box_def box_remove_def)
  have partial: "remove_selection partial_state =
      ([Deleting (''/a'', ''1''), Deleted (''/a'', ''1''), Deleting (''/a'', ''9'')],
       Some (KeyError ''9''),
       partial_state\<lparr>stats := incr mail_deleted 1 (incr mail_deleted 1 (stats partial_state)),
         sources := [(''/a'', example_box\<lparr>items := []\<rparr>)]\<rparr>)"
    by (simp add: remove_selection_def unique_def partial_state_def example_conf_def
        example_box_def box_remove_def set_source_def)
  have d: "distinct (selection dry_state)" "dry_run (conf dry_state)" "stats dry_state mail_deleted = 0"
      "length (selection dry_state) = 1"
    by (simp_all add: dry_state_def example_conf_def Counter_def)
  have l: "distinct (selection live_state)" "\<not> dry_run (conf live_state)" "stats live_state mail_deleted = 0"
      "length (selection live_state) = 1" "map_of (sources live_state) ''/a'' = Some example_box"
    by (simp_all add: live_state_def example_conf_def Counter_def)
  have t: "distinct (selection stale_state)" "\<not> dry_run (conf stale_state)"
      "length (selection stale_state) = 1" "map_of (sources stale_state) ''/a'' = Some example_box"
    by (simp_all add: stale_state_def example_conf_def)
  have q: "distinct (selection partial_state)" "\<not> dry_run (conf partial_state)"
      "map_of (sources partial_state) ''/a'' = Some example_box"
      "selection partial_state = [(''/a'', ''1''), (''/a'', ''9'')]"
    by (simp_all add: partial_state_def example_conf_def)
  note TD = remove_selection_counts [OF d(1) dry]
  from TD [THEN conjunct2, THEN conjunct1, THEN mp, OF d(2)] dry d(3,4)
  have D: "stats (snd (snd (remove_selection dry_state))) mail_deleted = 1"
      "sources (snd (snd (remove_selection dry_state))) = sources dry_state"
      "completed (fst (remove_selection dry_state)) = 0"
    by simp_all
  note TL = remove_selection_counts [OF l(1) live]
  from TL [THEN conjunct2, THEN conjunct2, THEN conjunct1, THEN mp, OF conjI [OF l(2) refl]]
    live l(3,4)
  have L: "completed (fst (remove_selection live_state)) = 1"
      "stats (snd (snd (remove_selection live_state))) mail_deleted = 1"
    by simp_all
  from TL [THEN conjunct2, THEN conjunct2, THEN conjunct2, THEN conjunct2, THEN conjunct2,
      THEN conjunct2, rule_format, OF l(5)] live
  have L3: "map_of (sources (snd (snd (remove_selection live_state)))) ''/a''
      = Some (example_box\<lparr>items := []\<rparr>)"
    by (simp add: without_def example_box_def)
  note TS = remove_selection_counts [OF t(1) stale]
  have failed: "Some (KeyError ''9'') \<noteq> None" by simp
  from TS [THEN conjunct2, THEN conjunct2, THEN conjunct2, THEN conjunct1, THEN mp,
      OF conjI [OF t(2) failed]] stale t(3)
  have S0: "completed (fst (remove_selection stale_state)) = 0"
    by simp
  from TS [THEN conjunct2, THEN conjunct2, THEN conjunct2, THEN conjunct2, THEN conjunct2,
      THEN conjunct2, rule_format, OF t(4)] stale
  have S1: "map_of (sources (snd (snd (remove_selection stale_state)))) ''/a'' = Some example_box"
    by (simp add: without_def)
  note TP = remove_selection_counts [OF q(1) partial]
  from partial have P0: "fst (snd (remove_selection partial_state)) = Some (KeyError ''9'')"
    by simp
  have c: "completed [Deleting (''/a'', ''1''), Deleted (''/a'', ''1''), Deleting (''/a'', ''9'')] = 1"
    by (simp add: completed_def)
  from TP [THEN conjunct2, THEN conjunct2, THEN conjunct2, THEN conjunct2, THEN conjunct1]
    partial c q(4)
  have P1: "deleted_uids (fst (remove_selection partial_state)) = [(''/a'', ''1'')]"
    by simp
  from TP [THEN conjunct2, THEN conjunct2, THEN conjunct2, THEN conjunct2, THEN conjunct2,
      THEN conjunct2, rule_format, OF q(3)] partial
  have P2: "map_of (sources (snd (snd (remove_selection partial_state)))) ''/a''
      = Some (example_box\<lparr>items := []\<rparr>)"
    by (simp add: without_def example_box_def)
  from D L L3 S0 S1 P0 P1 P2 show ?thesis by (intro conjI)
qed

text \<open>
  C1 as first stated says that \<open>mail_deleted\<close> is not incremented in dry-run mode and
  counts only completed deletions when a removal raises. A dry run over one selected pair
  leaves the counter at 1 with no removal performed, and so does a real run whose only
  removal raises \<open>KeyError\<close>.
\<close>
theorem mail_deleted_counterexample:
  "dry_run (conf dry_state)
   \<and> stats dry_state mail_deleted = 0
   \<and> stats (snd (snd (remove_selection dry_state))) mail_deleted = 1
   \<and> filter is_Deleted (fst (remove_selection dry_state)) = []
   \<and> fst (snd (remove_selection stale_state)) = Some (KeyError ''9'')
   \<and> filter is_Deleted (fst (remove_selection stale_state)) = []
   \<and> stats stale_state mail_deleted = 0
   \<and> stats (snd (snd (remove_selection stale_state))) mail_deleted = 1"
  by (simp add: remove_selection_def unique_def dry_state_def stale_state_def example_conf_def
      example_box_def box_remove_def Counter_def incr_def)

section \<open>Selection over all buckets\<close>

lemma select_candidates_outcome:
  "outcome_total (ds_stats (snd (select_candidates apply_strategy ud ds)))
     = outcome_total (ds_stats ds) + 1"
  by (simp add: select_candidates_def skip_set_def outcome_total_def Let_def
      split: option.splits check_error.splits)

lemma select_candidates_set_counters:
  assumes "k \<in> {set_total, set_ignored, set_rejected_encoding, set_rejected_size,
     set_rejected_content, set_skipped, set_deduplicated}"
  shows "ds_stats ds k \<le> ds_stats (snd (select_candidates apply_strategy ud ds)) k"
    and "k = set_total \<Longrightarrow> ds_stats (snd (select_candidates apply_strategy ud ds)) k = ds_stats ds k"
  using assms
  by (auto simp add: select_candidates_def skip_set_def Let_def
      split: option.splits check_error.splits)

lemma select_step_stats:
  "stats (select_step apply_strategy ud b s) =
     counter_iadd (stats s)
       (ds_stats (snd (select_candidates apply_strategy ud (DuplicateSet (fst b) (snd b) (conf s)))))"
  by (simp add: select_step_def Let_def split: option.splits)

lemma select_step_selection:
  "selection (select_step apply_strategy ud b s) =
     selection s @ (case fst (select_candidates apply_strategy ud
                       (DuplicateSet (fst b) (snd b) (conf s))) of None \<Rightarrow> [] | Some cs \<Rightarrow> cs)"
  by (simp add: select_step_def Let_def split: option.splits)

lemma select_step_fields [simp]:
  "conf (select_step apply_strategy ud b s) = conf s"
  "mails (select_step apply_strategy ud b s) = mails s"
  "sources (select_step apply_strategy ud b s) = sources s"
  by (simp_all add: select_step_def Let_def split: option.splits)

lemma counter_iadd_nonneg: "0 \<le> a k \<Longrightarrow> 0 \<le> b k \<Longrightarrow> counter_iadd a b k = a k + b k"
  by (simp add: counter_iadd_def Let_def)

lemma fresh_set_counters:
  "set_counters_nonneg (ds_stats (snd (select_candidates apply_strategy ud (DuplicateSet h ms c))))"
  "outcome_total (ds_stats (snd (select_candidates apply_strategy ud (DuplicateSet h ms c)))) = 1"
  "ds_stats (snd (select_candidates apply_strategy ud (DuplicateSet h ms c))) set_total = 0"
proof -
  let ?ds = "DuplicateSet h ms c"
  have zero: "ds_stats ?ds k = 0" for k by (simp add: DuplicateSet_def Counter_def)
  show "set_counters_nonneg (ds_stats (snd (select_candidates apply_strategy ud ?ds)))"
    unfolding set_counters_nonneg_def
    using select_candidates_set_counters(1) [where ds = ?ds and apply_strategy = apply_strategy and ud = ud] zero
    by simp
  show "outcome_total (ds_stats (snd (select_candidates apply_strategy ud ?ds))) = 1"
    using select_candidates_outcome [of apply_strategy ud ?ds] zero
    by (simp add: outcome_total_def)
  show "ds_stats (snd (select_candidates apply_strategy ud ?ds)) set_total = 0"
    using select_candidates_set_counters(2) [where k = set_total and ds = ?ds and apply_strategy = apply_strategy and ud = ud] zero by simp
qed

lemma select_step_set_counters:
  assumes "set_counters_nonneg (stats s)"
  shows "set_counters_nonneg (stats (select_step apply_strategy ud b s))"
    and "outcome_total (stats (select_step apply_strategy ud b s)) = outcome_total (stats s) + 1"
    and "stats (select_step apply_strategy ud b s) set_total = stats s set_total"
proof -
  let ?l = "ds_stats (snd (select_candidates apply_strategy ud (DuplicateSet (fst b) (snd b) (conf s))))"
  note l = fresh_set_counters [of apply_strategy ud "fst b" "snd b" "conf s"]
  have sum: "stats (select_step apply_strategy ud b s) k = stats s k + ?l k"
    if "k \<in> {set_total, set_ignored, set_rejected_encoding, set_rejected_size,
     set_rejected_content, set_skipped, set_deduplicated}" for k
    using that assms l(1)
    by (auto simp add: select_step_stats set_counters_nonneg_def counter_iadd_nonneg)
  show "set_counters_nonneg (stats (select_step apply_strategy ud b s))"
    using assms l(1) by (simp add: set_counters_nonneg_def sum)
  show "outcome_total (stats (select_step apply_strategy ud b s)) = outcome_total (stats s) + 1"
    using l(2) by (simp add: outcome_total_def sum)
  show "stats (select_step apply_strategy ud b s) set_total = stats s set_total"
    using l(3) by (simp add: sum)
qed

lemma fold_select_step_set_counters:
  assumes "set_counters_nonneg (stats s)"
  shows "set_counters_nonneg (stats (fold (select_step apply_strategy ud) bs s))
     \<and> outcome_total (stats (fold (select_step apply_strategy ud) bs s))
         = outcome_total (stats s) + int (length bs)
     \<and> stats (fold (select_step apply_strategy ud) bs s) set_total = stats s set_total"
  using assms
proof (induction bs arbitrary: s)
  case Nil
  then show ?case by simp
next
  case (Cons b bs)
  from select_step_set_counters [OF Cons.prems, of apply_strategy ud b]
    Cons.IH [of "select_step apply_strategy ud b s"]
  show ?case by simp
qed

text \<open>
  C6. Starting from outcome counters at zero, after \<open>select_all\<close> the counter
  \<open>set_total\<close> is the number of hash buckets recorded before the loop, and it equals
  \<open>set_ignored + set_rejected_encoding + set_rejected_size + set_rejected_content +
  set_skipped + set_deduplicated\<close>: every duplicate set adds one to exactly one of the six
  outcome counters (they are non-negative and sum to one in its local statistics).
\<close>
theorem set_total_partition:
  assumes "stats s set_ignored = 0" and "stats s set_rejected_encoding = 0"
    and "stats s set_rejected_size = 0" and "stats s set_rejected_content = 0"
    and "stats s set_skipped = 0" and "stats s set_deduplicated = 0"
  shows "stats (select_all apply_strategy ud s) set_total = int (length (mails s))
     \<and> stats (select_all apply_strategy ud s) set_total
         = stats (select_all apply_strategy ud s) set_ignored
         + stats (select_all apply_strategy ud s) set_rejected_encoding
         + stats (select_all apply_strategy ud s) set_rejected_size
         + stats (select_all apply_strategy ud s) set_rejected_content
         + stats (select_all apply_strategy ud s) set_skipped
         + stats (select_all apply_strategy ud s) set_deduplicated
     \<and> outcome_total (ds_stats (snd (select_candidates apply_strategy ud (DuplicateSet h ms c)))) = 1
     \<and> set_counters_nonneg (ds_stats (snd (select_candidates apply_strategy ud (DuplicateSet h ms c))))"
proof -
  let ?s0 = "s\<lparr>stats := (stats s)(set_total := int (length (mails s)))\<rparr>"
  let ?s1 = "fold (select_step apply_strategy ud) (mails s) ?s0"
  have start: "set_counters_nonneg (stats ?s0)" "outcome_total (stats ?s0) = 0"
    using assms by (simp_all add: set_counters_nonneg_def outcome_total_def)
  have final: "stats (select_all apply_strategy ud s) = stats ?s1"
    by (simp add: select_all_def Let_def)
  from fold_select_step_set_counters [OF start(1), of apply_strategy ud "mails s"] start(2)
  have "outcome_total (stats ?s1) = int (length (mails s))"
    and "stats ?s1 set_total = int (length (mails s))"
    by simp_all
  with fresh_set_counters(1,2) [of apply_strategy ud h ms c] show ?thesis
    unfolding final by (simp add: outcome_total_def)
qed

lemma candidates_from_strategy':
  assumes "fst (select_candidates apply_strategy ud ds) = Some cs"
  shows "\<exists>name. cs = apply_strategy name (bump mail_duplicates (pool_size ds) ds)"
  using candidates_from_strategy [OF assms] by blast

lemma select_step_selection_contract:
  assumes "\<forall>name ds. distinct (apply_strategy name ds)
             \<and> set (apply_strategy name ds) \<subseteq> uid_of ` set (pool ds)"
  shows "\<exists>cs. selection (select_step apply_strategy ud b s) = selection s @ cs
           \<and> distinct cs \<and> set cs \<subseteq> bucket_uids b"
proof (cases "fst (select_candidates apply_strategy ud (DuplicateSet (fst b) (snd b) (conf s)))")
  case None
  then show ?thesis by (simp add: select_step_selection)
next
  case (Some cs)
  let ?ds = "DuplicateSet (fst b) (snd b) (conf s)"
  from candidates_from_strategy' [OF Some] obtain name
    where cs: "cs = apply_strategy name (bump mail_duplicates (pool_size ?ds) ?ds)" by blast
  let ?ds1 = "bump mail_duplicates (pool_size ?ds) ?ds"
  have p: "set (pool ?ds1) = set (snd b)"
    by (simp add: DuplicateSet_def)
  from assms have "distinct (apply_strategy name ?ds1)"
    and "set (apply_strategy name ?ds1) \<subseteq> uid_of ` set (pool ?ds1)" by blast+
  with cs p have "distinct cs" "set cs \<subseteq> bucket_uids b"
    by (simp_all add: bucket_uids_def)
  with Some show ?thesis by (simp add: select_step_selection)
qed

lemma fold_select_step_distinct:
  assumes "\<forall>name ds. distinct (apply_strategy name ds)
             \<and> set (apply_strategy name ds) \<subseteq> uid_of ` set (pool ds)"
    and "disjoint_buckets bs" and "distinct (selection s)"
    and "set (selection s) \<inter> \<Union> (bucket_uids ` set bs) = {}"
  shows "distinct (selection (fold (select_step apply_strategy ud) bs s))
     \<and> set (selection (fold (select_step apply_strategy ud) bs s))
         \<subseteq> set (selection s) \<union> \<Union> (bucket_uids ` set bs)"
  using assms(2-)
proof (induction bs arbitrary: s)
  case Nil
  then show ?case by simp
next
  case (Cons b bs)
  let ?t = "select_step apply_strategy ud b s"
  from select_step_selection_contract [OF assms(1), of ud b s] obtain cs
    where cs: "selection ?t = selection s @ cs" "distinct cs" "set cs \<subseteq> bucket_uids b"
    by blast
  have d: "distinct (selection ?t)"
    using cs Cons.prems(2,3) by auto
  have disj: "bucket_uids b \<inter> \<Union> (bucket_uids ` set bs) = {}"
    using Cons.prems(1) by auto
  have i: "set (selection ?t) \<inter> \<Union> (bucket_uids ` set bs) = {}"
    using cs Cons.prems(3) disj by auto
  from Cons.prems(1) have "disjoint_buckets bs" by simp
  from Cons.IH [OF this d i] cs show ?case by auto
qed

lemma remove_loop_error:
  "remove_loop sel s = (ev, Some e, s') \<Longrightarrow> e \<noteq> AssertionError"
proof (induction sel arbitrary: s ev s')
  case Nil
  then show ?case by simp
next
  case (Cons u rest)
  obtain box_path mid where u: "u = (box_path, mid)" by (cases u)
  from Cons.prems u show ?case
    using Cons.IH
    by (auto simp add: Let_def box_remove_def split: if_splits option.splits sum.splits prod.splits)
qed

text \<open>
  C5. When the hash buckets have pairwise disjoint sets of \<open>(source_path, mail_id)\<close>
  identifiers, the selection starts empty and every strategy call returns a duplicate-free
  sub-collection of the identifiers of its own set, the selection built by \<open>select_all\<close>
  has no repeated pair: \<open>unique(selection) == selection\<close> holds and \<open>remove_selection\<close>
  does not raise \<open>AssertionError\<close>.
\<close>
theorem selection_without_repetition:
  assumes "\<forall>name ds. distinct (apply_strategy name ds)
             \<and> set (apply_strategy name ds) \<subseteq> uid_of ` set (pool ds)"
    and "disjoint_buckets (mails s)" and "selection s = []"
  shows "distinct (selection (select_all apply_strategy ud s))
     \<and> unique (selection (select_all apply_strategy ud s)) = selection (select_all apply_strategy ud s)
     \<and> fst (snd (remove_selection (select_all apply_strategy ud s))) \<noteq> Some AssertionError"
proof -
  let ?s0 = "s\<lparr>stats := (stats s)(set_total := int (length (mails s)))\<rparr>"
  let ?s1 = "fold (select_step apply_strategy ud) (mails s) ?s0"
  let ?t = "select_all apply_strategy ud s"
  have sel: "selection ?t = selection ?s1" by (simp add: select_all_def Let_def)
  have "distinct (selection ?s1)"
    using fold_select_step_distinct [OF assms(1), of "mails s" ?s0 ud] assms(2,3) by simp
  with sel have d: "distinct (selection ?t)" by simp
  then have u: "unique (selection ?t) = selection ?t" by (simp add: unique_id)
  have "fst (snd (remove_selection ?t)) \<noteq> Some AssertionError"
  proof
    assume a: "fst (snd (remove_selection ?t)) = Some AssertionError"
    obtain ev r t' where loop: "remove_loop (selection ?t) ?t = (ev, r, t')"
      by (cases "remove_loop (selection ?t) ?t") auto
    with u a have "r = Some AssertionError" by (simp add: remove_selection_def)
    with loop remove_loop_error [of "selection ?t" ?t ev AssertionError t'] show False by simp
  qed
  with d u show ?thesis by blast
qed

section \<open>Grouping by hash and the complete run\<close>

lemma stored_simps [simp]:
  "stored [] = []"
  "stored ((k, ms) # rest) = ms @ stored rest"
  by (simp_all add: stored_def)

lemma stored_setdefault_add_set:
  "set (stored (setdefault_add h m bs)) = insert m (set (stored bs))"
proof (induction bs)
  case Nil
  show ?case by simp
next
  case (Cons b bs)
  obtain k ms where b: "b = (k, ms)" by (cases b)
  show ?case using Cons.IH by (auto simp add: b set_add_def)
qed

lemma stored_setdefault_add_new:
  "m \<notin> set (stored bs) \<Longrightarrow> distinct (stored bs) \<Longrightarrow>
     distinct (stored (setdefault_add h m bs))
     \<and> length (stored (setdefault_add h m bs)) = Suc (length (stored bs))"
proof (induction bs)
  case Nil
  show ?case by simp
next
  case (Cons b bs)
  obtain k ms where b: "b = (k, ms)" by (cases b)
  show ?case
  proof (cases "k = h")
    case True
    with Cons.prems b show ?thesis by (auto simp add: set_add_def)
  next
    case False
    from Cons.prems b have "m \<notin> set (stored bs)" "distinct (stored bs)" by simp_all
    from Cons.IH [OF this] Cons.prems b False
      stored_setdefault_add_set [of h m bs]
    show ?thesis by auto
  qed
qed

lemma hash_mail_fields [simp]:
  "conf (hash_mail sp km s) = conf s"
  "selection (hash_mail sp km s) = selection s"
  "sources (hash_mail sp km s) = sources s"
  by (simp_all add: hash_mail_def Let_def split: option.splits)

lemma hash_mail_other:
  "k \<noteq> mail_retained \<Longrightarrow> k \<noteq> mail_rejected \<Longrightarrow> stats (hash_mail sp km s) k = stats s k"
  by (simp add: hash_mail_def Let_def incr_def split: option.splits)

lemma hash_mail_step:
  assumes "distinct (stored (mails s))"
    and "\<forall>m \<in> set (stored (mails s)). uid_of m \<noteq> (sp, fst km)"
  shows "distinct (stored (mails (hash_mail sp km s)))
     \<and> stats (hash_mail sp km s) mail_retained - int (length (stored (mails (hash_mail sp km s))))
         = stats s mail_retained - int (length (stored (mails s)))
     \<and> uid_of ` set (stored (mails (hash_mail sp km s)))
         \<subseteq> insert (sp, fst km) (uid_of ` set (stored (mails s)))"
proof -
  let ?m = "(snd km)\<lparr>source_path := sp, mail_id := fst km\<rparr>"
  have u: "uid_of ?m = (sp, fst km)" by (simp add: uid_of_def)
  with assms(2) have new: "?m \<notin> set (stored (mails s))" by auto
  show ?thesis
  proof (cases "hash_key ?m")
    case None
    with assms(1) show ?thesis by (auto simp add: hash_mail_def Let_def incr_def)
  next
    case (Some h)
    from stored_setdefault_add_new [OF new assms(1), of h]
      stored_setdefault_add_set [of h ?m "mails s"] u Some
    show ?thesis by (auto simp add: hash_mail_def Let_def incr_def)
  qed
qed

lemma hash_box:
  assumes "distinct (stored (mails s))" and "distinct (map fst kms)"
    and "\<forall>m \<in> set (stored (mails s)). uid_of m \<notin> Pair sp ` fst ` set kms"
  shows "distinct (stored (mails (fold (hash_mail sp) kms s)))
     \<and> stats (fold (hash_mail sp) kms s) mail_retained
         - int (length (stored (mails (fold (hash_mail sp) kms s))))
         = stats s mail_retained - int (length (stored (mails s)))
     \<and> uid_of ` set (stored (mails (fold (hash_mail sp) kms s)))
         \<subseteq> uid_of ` set (stored (mails s)) \<union> Pair sp ` fst ` set kms"
  using assms
proof (induction kms arbitrary: s)
  case Nil
  then show ?case by simp
next
  case (Cons km kms)
  let ?t = "hash_mail sp km s"
  have a: "\<forall>m \<in> set (stored (mails s)). uid_of m \<noteq> (sp, fst km)"
    using Cons.prems(3) by auto
  note step = hash_mail_step [OF Cons.prems(1) a]
  have d: "distinct (map fst kms)" and fresh: "fst km \<notin> fst ` set kms"
    using Cons.prems(2) by auto
  have b: "\<forall>m \<in> set (stored (mails ?t)). uid_of m \<notin> Pair sp ` fst ` set kms"
  proof
    fix m assume "m \<in> set (stored (mails ?t))"
    with step have "uid_of m = (sp, fst km) \<or> uid_of m \<in> uid_of ` set (stored (mails s))"
      by auto
    with fresh Cons.prems(3) show "uid_of m \<notin> Pair sp ` fst ` set kms"
      by (fastforce simp add: image_iff)
  qed
  from step have dt: "distinct (stored (mails ?t))" by simp
  note ih = Cons.IH [OF dt d b]
  have "uid_of ` set (stored (mails (fold (hash_mail sp) kms ?t)))
      \<subseteq> uid_of ` set (stored (mails ?t)) \<union> Pair sp ` fst ` set kms"
    using ih by simp
  also have "\<dots> \<subseteq> insert (sp, fst km) (uid_of ` set (stored (mails s))) \<union> Pair sp ` fst ` set kms"
    using step by blast
  also have "\<dots> = uid_of ` set (stored (mails s)) \<union> Pair sp ` fst ` set (km # kms)"
    by auto
  finally have sub: "uid_of ` set (stored (mails (fold (hash_mail sp) (km # kms) s)))
      \<subseteq> uid_of ` set (stored (mails s)) \<union> Pair sp ` fst ` set (km # kms)"
    by simp
  have "distinct (stored (mails (fold (hash_mail sp) (km # kms) s)))"
    using ih by simp
  moreover have "stats (fold (hash_mail sp) (km # kms) s) mail_retained
         - int (length (stored (mails (fold (hash_mail sp) (km # kms) s))))
         = stats s mail_retained - int (length (stored (mails s)))"
    using ih step by simp
  ultimately show ?case using sub by blast
qed

lemma fold_hash_mail_fields [simp]:
  "conf (fold (hash_mail sp) kms s) = conf s"
  "selection (fold (hash_mail sp) kms s) = selection s"
  "sources (fold (hash_mail sp) kms s) = sources s"
  by (induction kms arbitrary: s) simp_all

lemma fold_hash_mail_other:
  "k \<noteq> mail_retained \<Longrightarrow> k \<noteq> mail_rejected \<Longrightarrow> stats (fold (hash_mail sp) kms s) k = stats s k"
  by (induction kms arbitrary: s) (simp_all add: hash_mail_other)

lemma hash_sources:
  assumes "distinct (stored (mails s))" and "wf_sources srcs"
    and "\<forall>m \<in> set (stored (mails s)). source_path m \<notin> fst ` set srcs"
  shows "distinct (stored (mails (fold (\<lambda>(sp, b). fold (hash_mail sp) (items b)) srcs s)))
     \<and> stats (fold (\<lambda>(sp, b). fold (hash_mail sp) (items b)) srcs s) mail_retained
         - int (length (stored (mails (fold (\<lambda>(sp, b). fold (hash_mail sp) (items b)) srcs s))))
         = stats s mail_retained - int (length (stored (mails s)))
     \<and> (\<forall>k. k \<noteq> mail_retained \<longrightarrow> k \<noteq> mail_rejected \<longrightarrow>
           stats (fold (\<lambda>(sp, b). fold (hash_mail sp) (items b)) srcs s) k = stats s k)
     \<and> conf (fold (\<lambda>(sp, b). fold (hash_mail sp) (items b)) srcs s) = conf s
     \<and> selection (fold (\<lambda>(sp, b). fold (hash_mail sp) (items b)) srcs s) = selection s"
  using assms
proof (induction srcs arbitrary: s)
  case Nil
  then show ?case by simp
next
  case (Cons pb srcs)
  obtain sp b where pb: "pb = (sp, b)" by (cases pb)
  let ?t = "fold (hash_mail sp) (items b) s"
  have wf: "distinct (map fst (items b))" "wf_sources srcs" "sp \<notin> fst ` set srcs"
    using Cons.prems(2) pb by (auto simp add: wf_sources_def)
  have a: "\<forall>m \<in> set (stored (mails s)). uid_of m \<notin> Pair sp ` fst ` set (items b)"
    using Cons.prems(3) pb by (auto simp add: uid_of_def)
  note box = hash_box [OF Cons.prems(1) wf(1) a]
  have c: "\<forall>m \<in> set (stored (mails ?t)). source_path m \<notin> fst ` set srcs"
  proof
    fix m assume "m \<in> set (stored (mails ?t))"
    with box have "uid_of m \<in> uid_of ` set (stored (mails s)) \<or> uid_of m \<in> Pair sp ` fst ` set (items b)"
      by auto
    then have "source_path m = sp \<or> (\<exists>m' \<in> set (stored (mails s)). source_path m = source_path m')"
      by (auto simp add: uid_of_def)
    with wf(3) Cons.prems(3) pb show "source_path m \<notin> fst ` set srcs"
      by (fastforce simp add: image_iff)
  qed
  from Cons.IH [OF _ wf(2) c] box pb show ?case
    by (simp add: fold_hash_mail_other)
qed

lemma select_candidates_mail_counters:
  assumes "\<forall>name. length (apply_strategy name (bump mail_duplicates (pool_size ds) ds)) \<le> length (pool ds)"
  shows "ds_stats (snd (select_candidates apply_strategy ud ds)) mail_discarded
           + ds_stats (snd (select_candidates apply_strategy ud ds)) mail_selected
         = ds_stats ds mail_discarded + ds_stats ds mail_selected + pool_size ds"
    and "ds_stats ds mail_discarded \<le> ds_stats (snd (select_candidates apply_strategy ud ds)) mail_discarded"
    and "ds_stats ds mail_selected \<le> ds_stats (snd (select_candidates apply_strategy ud ds)) mail_selected"
    and "ds_stats (snd (select_candidates apply_strategy ud ds)) mail_retained = ds_stats ds mail_retained"
proof -
  have le: "int (length (apply_strategy name (bump mail_duplicates (pool_size ds) ds))) \<le> pool_size ds"
    for name using assms by (simp add: pool_size_def)
  have nn: "0 \<le> pool_size ds" by (simp add: pool_size_def)
  show "ds_stats (snd (select_candidates apply_strategy ud ds)) mail_discarded
           + ds_stats (snd (select_candidates apply_strategy ud ds)) mail_selected
         = ds_stats ds mail_discarded + ds_stats ds mail_selected + pool_size ds"
    by (simp add: select_candidates_def skip_set_def Let_def
        split: option.splits check_error.splits)
  show "ds_stats ds mail_discarded \<le> ds_stats (snd (select_candidates apply_strategy ud ds)) mail_discarded"
    using le nn by (simp add: select_candidates_def skip_set_def Let_def
        split: option.splits check_error.splits)
  show "ds_stats ds mail_selected \<le> ds_stats (snd (select_candidates apply_strategy ud ds)) mail_selected"
    using nn by (simp add: select_candidates_def skip_set_def Let_def
        split: option.splits check_error.splits)
  show "ds_stats (snd (select_candidates apply_strategy ud ds)) mail_retained = ds_stats ds mail_retained"
    by (simp add: select_candidates_def skip_set_def Let_def
        split: option.splits check_error.splits)
qed

lemma select_step_mail_counters:
  assumes "\<forall>name ds. length (apply_strategy name ds) \<le> length (pool ds)"
    and "mail_counters_nonneg (stats s)"
  shows "mail_counters_nonneg (stats (select_step apply_strategy ud b s))"
    and "stats (select_step apply_strategy ud b s) mail_discarded
           + stats (select_step apply_strategy ud b s) mail_selected
         = stats s mail_discarded + stats s mail_selected + int (length (remdups (snd b)))"
    and "stats (select_step apply_strategy ud b s) mail_retained = stats s mail_retained"
proof -
  let ?ds = "DuplicateSet (fst b) (snd b) (conf s)"
  let ?l = "ds_stats (snd (select_candidates apply_strategy ud ?ds))"
  have zero: "ds_stats ?ds k = 0" for k by (simp add: DuplicateSet_def Counter_def)
  have size: "pool_size ?ds = int (length (remdups (snd b)))"
    by (simp add: DuplicateSet_def pool_size_def)
  have c: "\<forall>name. length (apply_strategy name (bump mail_duplicates (pool_size ?ds) ?ds)) \<le> length (pool ?ds)"
  proof
    fix name
    from assms(1) have "length (apply_strategy name (bump mail_duplicates (pool_size ?ds) ?ds))
        \<le> length (pool (bump mail_duplicates (pool_size ?ds) ?ds))" by blast
    then show "length (apply_strategy name (bump mail_duplicates (pool_size ?ds) ?ds)) \<le> length (pool ?ds)"
      by simp
  qed
  note l = select_candidates_mail_counters
    [where apply_strategy = apply_strategy and ds = ?ds and ud = ud, OF c]
  have l1: "?l mail_discarded + ?l mail_selected = int (length (remdups (snd b)))"
    using l(1) zero size by simp
  have l2: "0 \<le> ?l mail_discarded" "0 \<le> ?l mail_selected" "?l mail_retained = 0"
    using l(2,3,4) zero by simp_all
  have sum: "stats (select_step apply_strategy ud b s) k = stats s k + ?l k"
    if "k \<in> {mail_retained, mail_discarded, mail_selected}" for k
    using that assms(2) l2
    by (auto simp add: select_step_stats mail_counters_nonneg_def counter_iadd_nonneg)
  show "mail_counters_nonneg (stats (select_step apply_strategy ud b s))"
    using assms(2) l2 by (simp add: mail_counters_nonneg_def sum)
  show "stats (select_step apply_strategy ud b s) mail_discarded
           + stats (select_step apply_strategy ud b s) mail_selected
         = stats s mail_discarded + stats s mail_selected + int (length (remdups (snd b)))"
    using l1 by (simp add: sum)
  show "stats (select_step apply_strategy ud b s) mail_retained = stats s mail_retained"
    using l2 by (simp add: sum)
qed

lemma fold_select_step_mail_counters:
  assumes "\<forall>name ds. length (apply_strategy name ds) \<le> length (pool ds)"
    and "mail_counters_nonneg (stats s)"
  shows "mail_counters_nonneg (stats (fold (select_step apply_strategy ud) bs s))
     \<and> stats (fold (select_step apply_strategy ud) bs s) mail_discarded
         + stats (fold (select_step apply_strategy ud) bs s) mail_selected
       = stats s mail_discarded + stats s mail_selected
         + (\<Sum>b\<leftarrow>bs. int (length (remdups (snd b))))
     \<and> stats (fold (select_step apply_strategy ud) bs s) mail_retained = stats s mail_retained"
  using assms(2)
proof (induction bs arbitrary: s)
  case Nil
  then show ?case by simp
next
  case (Cons b bs)
  from select_step_mail_counters [OF assms(1) Cons.prems, of ud b]
    Cons.IH [of "select_step apply_strategy ud b s"]
  show ?case by simp
qed

lemma stored_total:
  "distinct (stored bs) \<Longrightarrow> (\<Sum>b\<leftarrow>bs. int (length (remdups (snd b)))) = int (length (stored bs))"
proof (induction bs)
  case Nil
  show ?case by simp
next
  case (Cons b bs)
  obtain k ms where b: "b = (k, ms)" by (cases b)
  with Cons show ?case by (simp add: distinct_remdups_id)
qed

lemma remove_selection_stats:
  assumes "remove_selection s = (ev, r, s')" and "k \<noteq> mail_deleted"
  shows "stats s' k = stats s k"
proof (cases "unique (selection s) = selection s")
  case True
  with assms(1) have "remove_loop (selection s) s = (ev, r, s')"
    by (simp add: remove_selection_def)
  from remove_loop_effect [OF this] assms(2) show ?thesis by simp
next
  case False
  with assms(1) show ?thesis by (simp add: remove_selection_def)
qed

text \<open>
  C4. For a fresh engine whose registered sources have distinct paths and, each, distinct
  mail ids, and a strategy that never returns more candidates than its set has mails:
  after grouping (\<open>hash_all\<close>) and selection (\<open>select_all\<close>), and also after a removal
  (\<open>remove_selection\<close>) whatever its outcome, \<open>mail_retained = mail_discarded + mail_selected\<close>.
\<close>
theorem retained_is_discarded_plus_selected:
  assumes "wf_sources (sources s)" and "mails s = []"
    and "stats s mail_retained = 0" and "stats s mail_discarded = 0" and "stats s mail_selected = 0"
    and "\<forall>name ds. length (apply_strategy name ds) \<le> length (pool ds)"
  shows "stats (select_all apply_strategy ud (hash_all s)) mail_retained
         = stats (select_all apply_strategy ud (hash_all s)) mail_discarded
           + stats (select_all apply_strategy ud (hash_all s)) mail_selected
     \<and> (\<forall>ev r s'. remove_selection (select_all apply_strategy ud (hash_all s)) = (ev, r, s')
           \<longrightarrow> stats s' mail_retained = stats s' mail_discarded + stats s' mail_selected)"
proof -
  let ?h = "hash_all s"
  let ?s0 = "?h\<lparr>stats := (stats ?h)(set_total := int (length (mails ?h)))\<rparr>"
  let ?s1 = "fold (select_step apply_strategy ud) (mails ?h) ?s0"
  let ?t = "select_all apply_strategy ud ?h"
  have h: "distinct (stored (mails ?h))"
      "stats ?h mail_retained = int (length (stored (mails ?h)))"
      "stats ?h mail_discarded = 0" "stats ?h mail_selected = 0"
    using hash_sources [of s "sources s"] assms(1-5) by (simp_all add: hash_all_def)
  have nn: "mail_counters_nonneg (stats ?s0)"
    using h by (simp add: mail_counters_nonneg_def)
  have final: "stats ?t = stats ?s1" by (simp add: select_all_def Let_def)
  from fold_select_step_mail_counters [OF assms(6) nn, of ud "mails ?h"] h
    stored_total [OF h(1)]
  have inv: "stats ?t mail_retained = stats ?t mail_discarded + stats ?t mail_selected"
    unfolding final by simp
  have "stats s' mail_retained = stats s' mail_discarded + stats s' mail_selected"
    if "remove_selection ?t = (ev, r, s')" for ev r s'
    using remove_selection_stats [OF that] inv by simp
  with inv show ?thesis by blast
qed

lemma select_rest_contract:
  "distinct (select_rest name ds)" "set (select_rest name ds) \<subseteq> uid_of ` set (pool ds)"
  "length (select_rest name ds) \<le> length (pool ds)"
proof -
  show "distinct (select_rest name ds)" by (simp add: select_rest_def)
  show "set (select_rest name ds) \<subseteq> uid_of ` set (pool ds)"
    by (cases "pool ds") (auto simp add: select_rest_def)
  have "length (remdups (map uid_of (tl (pool ds)))) \<le> length (map uid_of (tl (pool ds)))"
    by (rule length_remdups_leq)
  then show "length (select_rest name ds) \<le> length (pool ds)"
    by (simp add: select_rest_def)
qed

text \<open>The statement of C4 at an engine with two sources holding four mails.\<close>
theorem retained_is_discarded_plus_selected_witness:
  "wf_sources (sources fresh_state) \<and> mails fresh_state = []
   \<and> stats fresh_state mail_retained = 0
   \<and> stats (select_all select_rest plain_diff (hash_all fresh_state)) mail_retained
       = stats (select_all select_rest plain_diff (hash_all fresh_state)) mail_discarded
         + stats (select_all select_rest plain_diff (hash_all fresh_state)) mail_selected"
proof -
  have wf: "wf_sources (sources fresh_state)"
    by (simp add: fresh_state_def wf_sources_def example_box_def other_box_def)
  have empty: "mails fresh_state = []" by (simp add: fresh_state_def Deduplicate_def)
  have zero: "stats fresh_state mail_retained = 0" "stats fresh_state mail_discarded = 0"
      "stats fresh_state mail_selected = 0"
    by (simp_all add: fresh_state_def Counter_def)
  have contract: "\<forall>name ds. length (select_rest name ds) \<le> length (pool ds)"
    by (simp add: select_rest_contract(3))
  from retained_is_discarded_plus_selected [OF wf empty zero contract, of plain_diff] wf empty zero(1)
  show ?thesis by blast
qed

text \<open>The statement of C5 at a state with two disjoint hash buckets.\<close>
theorem selection_without_repetition_witness:
  "disjoint_buckets (mails two_buckets_state) \<and> selection two_buckets_state = []
   \<and> distinct (selection (select_all select_rest plain_diff two_buckets_state))
   \<and> unique (selection (select_all select_rest plain_diff two_buckets_state))
       = selection (select_all select_rest plain_diff two_buckets_state)
   \<and> fst (snd (remove_selection (select_all select_rest plain_diff two_buckets_state)))
       \<noteq> Some AssertionError"
proof -
  have disj: "disjoint_buckets (mails two_buckets_state)"
    by (simp add: two_buckets_state_def bucket_uids_def uid_of_def mail_one_def mail_two_def
        mail_lone_def)
  have empty: "selection two_buckets_state = []"
    by (simp add: two_buckets_state_def Deduplicate_def)
  have contract: "\<forall>name ds. distinct (select_rest name ds)
      \<and> set (select_rest name ds) \<subseteq> uid_of ` set (pool ds)"
    by (simp add: select_rest_contract(1,2))
  from selection_without_repetition [OF contract disj empty, of plain_diff] disj empty
  show ?thesis by blast
qed

text \<open>The statement of C6 at a state with two hash buckets.\<close>
theorem set_total_partition_witness:
  "stats (select_all select_rest plain_diff two_buckets_state) set_total = 2
   \<and> stats (select_all select_rest plain_diff two_buckets_state) set_ignored
       + stats (select_all select_rest plain_diff two_buckets_state) set_rejected_encoding
       + stats (select_all select_rest plain_diff two_buckets_state) set_rejected_size
       + stats (select_all select_rest plain_diff two_buckets_state) set_rejected_content
       + stats (select_all select_rest plain_diff two_buckets_state) set_skipped
       + stats (select_all select_rest plain_diff two_buckets_state) set_deduplicated = 2"
proof -
  have zero: "stats two_buckets_state k = 0" for k
    by (simp add: two_buckets_state_def Deduplicate_def Counter_def)
  have len: "int (length (mails two_buckets_state)) = 2"
    by (simp add: two_buckets_state_def)
  from set_total_partition [where s = two_buckets_state and apply_strategy = select_rest
      and ud = plain_diff and h = "''h''" and ms = "[]" and c = example_conf,
      OF zero zero zero zero zero zero] len
  show ?thesis by simp
qed


end
